theory Spec2Isabelle
  imports Main "HOL-Library.Word" "HOL-Library.Signed_Division"
begin

unbundle bit_operations_syntax

section \<open>The QR plan builder of \<^verbatim>\<open>qr/qr.go\<close>\<close>

text \<open>
  Go's \<^verbatim>\<open>int\<close> is modelled by \<^typ>\<open>int\<close>: every value the builder computes from a valid
  version stays far below any machine bound.  \<^verbatim>\<open>Pixel\<close> and \<^verbatim>\<open>PixelRole\<close> are
  \<^verbatim>\<open>uint32\<close> and are modelled by 32-bit words.  A failing index expression is a run-time
  panic; it is the error value \<open>IndexOutOfRange\<close>.  The error built by \<^verbatim>\<open>fmt.Errorf\<close> in
  \<^verbatim>\<open>vplan\<close> is \<open>InvalidVersion\<close>.
\<close>

datatype error = InvalidVersion int | IndexOutOfRange

type_synonym Pixel = "32 word"
type_synonym PixelRole = "32 word"

subsection \<open>Pixels\<close>

definition Black :: Pixel where
  "Black = 1"

definition Invert :: Pixel where
  "Invert = 2"

definition Offset :: "Pixel \<Rightarrow> int" where
  "Offset p = uint (drop_bit 5 p)"

definition OffsetPixel :: "int \<Rightarrow> Pixel" where
  "OffsetPixel o' = word_of_int (push_bit 5 o')"

definition PixelRole_Pixel :: "PixelRole \<Rightarrow> Pixel" where
  "PixelRole_Pixel r = push_bit 2 r"

definition Role :: "Pixel \<Rightarrow> PixelRole" where
  "Role p = drop_bit 2 p AND 7"

definition Position :: PixelRole where
  "Position = 1"

definition Alignment :: PixelRole where
  "Alignment = 2"

definition Timing :: PixelRole where
  "Timing = 3"

definition Format :: PixelRole where
  "Format = 4"

definition Data :: PixelRole where
  "Data = 5"

definition Check :: PixelRole where
  "Check = 6"

subsection \<open>Levels\<close>

text \<open>
  The constant block is \<^verbatim>\<open>L Level = 0; M; Q; H\<close>.  A constant without an expression repeats
  the previous expression, which is \<^verbatim>\<open>0\<close> and not \<^verbatim>\<open>iota\<close>: the four names denote the same
  value.
\<close>

definition L :: int where
  "L = 0"

definition M :: int where
  "M = 0"

definition Q :: int where
  "Q = 0"

definition H :: int where
  "H = 0"

subsection \<open>Plans\<close>

record Plan =
  Version :: int
  Level :: int
  Mask :: int
  DataBytes :: int
  CheckBytes :: int
  Blocks :: int
  Pixel :: "Pixel list list"

record version =
  apos :: int
  astride :: int

definition vtab :: "version list" where
  "vtab = map (\<lambda>(a, s). \<lparr>apos = a, astride = s\<rparr>)
    [(0, 0),
     (100, 100), (16, 100), (20, 100), (24, 100), (28, 100),
     (32, 100), (20, 16), (22, 18), (24, 20), (26, 22),
     (28, 24), (30, 26), (32, 28), (24, 20), (24, 22),
     (24, 24), (28, 24), (28, 26), (28, 28), (32, 28),
     (26, 22), (24, 24), (28, 24), (26, 26), (30, 26),
     (28, 28), (32, 28), (24, 24), (28, 24), (24, 26),
     (28, 26), (32, 26), (28, 28), (32, 28), (28, 24),
     (22, 26), (26, 26), (30, 26), (24, 28), (28, 28)]"

subsection \<open>Sequencing, loops and indexed writes\<close>

definition bindE :: "error + 'a \<Rightarrow> ('a \<Rightarrow> error + 'b) \<Rightarrow> error + 'b" where
  "bindE r f = (case r of Inl e \<Rightarrow> Inl e | Inr a \<Rightarrow> f a)"

text \<open>A counted \<^verbatim>\<open>for\<close> loop over the given index values, stopping at the first panic.\<close>

fun forM :: "'a list \<Rightarrow> ('a \<Rightarrow> 's \<Rightarrow> error + 's) \<Rightarrow> 's \<Rightarrow> error + 's" where
  "forM [] f s = Inr s"
| "forM (x # xs) f s = (case f x s of Inl e \<Rightarrow> Inl e | Inr s' \<Rightarrow> forM xs f s')"

text \<open>The assignment \<^verbatim>\<open>m[i][j] = v\<close>; both index expressions are bounds-checked.\<close>

definition setPixel :: "Pixel list list \<Rightarrow> int \<Rightarrow> int \<Rightarrow> Pixel \<Rightarrow> error + Pixel list list" where
  "setPixel m i j v =
     (if 0 \<le> i \<and> i < int (length m) \<and> 0 \<le> j \<and> j < int (length (m ! nat i))
      then Inr (m[nat i := (m ! nat i)[nat j := v]])
      else Inl IndexOutOfRange)"

subsection \<open>Geometry\<close>

definition posBox :: "Pixel list list \<Rightarrow> int \<Rightarrow> int \<Rightarrow> error + Pixel list list" where
  "posBox m x y =
     (let pos = PixelRole_Pixel Position in
      bindE (forM [0..6] (\<lambda>dy. forM [0..6] (\<lambda>dx m.
               let p = (if dx = 0 \<or> dx = 6 \<or> dy = 0 \<or> dy = 6 \<or> 2 \<le> dx \<and> dx \<le> 4 \<and> 2 \<le> dy \<and> dy \<le> 4
                        then pos OR Black else pos)
               in setPixel m (y + dy) (x + dx) p)) m)
      (\<lambda>m. bindE (forM [-1..7] (\<lambda>dy m.
               if 0 \<le> y + dy \<and> y + dy < int (length m) then
                 bindE (if x > 0 then setPixel m (y + dy) (x - 1) pos else Inr m)
                   (\<lambda>m. if x + 7 < int (length m) then setPixel m (y + dy) (x + 7) pos else Inr m)
               else Inr m) m)
      (\<lambda>m. forM [-1..7] (\<lambda>dx m.
               if 0 \<le> x + dx \<and> x + dx < int (length m) then
                 bindE (if y > 0 then setPixel m (y - 1) (x + dx) pos else Inr m)
                   (\<lambda>m. if y + 7 < int (length m) then setPixel m (y + 7) (x + dx) pos else Inr m)
               else Inr m) m)))"

definition alignBox :: "Pixel list list \<Rightarrow> int \<Rightarrow> int \<Rightarrow> error + Pixel list list" where
  "alignBox m x y =
     (let align = PixelRole_Pixel Alignment in
      forM [0..4] (\<lambda>dy. forM [0..4] (\<lambda>dx m.
        let p = (if dx = 0 \<or> dx = 4 \<or> dy = 0 \<or> dy = 4 \<or> dx = 2 \<and> dy = 2
                 then align OR Black else align)
        in setPixel m (y + dy) (x + dx) p)) m)"

text \<open>
  The two alignment loops of \<^verbatim>\<open>vplan\<close> have no increment clause: the body moves the
  coordinate from 4 to \<^verbatim>\<open>apos\<close> and then by \<^verbatim>\<open>astride\<close>.  For arbitrary table entries
  they need not terminate, so each is a partial function; \<open>None\<close> is a run that never
  returns.
\<close>

partial_function (option) alignY ::
  "int \<Rightarrow> int \<Rightarrow> int \<Rightarrow> int \<Rightarrow> int \<Rightarrow> Pixel list list \<Rightarrow> (error + Pixel list list) option" where
  "alignY ap ast siz x y m =
     (if y + 5 < siz then
        (case (if (x < 7 \<and> y < 7) \<or> (x < 7 \<and> y + 5 \<ge> siz - 7) \<or> (x + 5 \<ge> siz - 7 \<and> y < 7)
               then Inr m else alignBox m x y) of
           Inl e \<Rightarrow> Some (Inl e)
         | Inr m' \<Rightarrow> alignY ap ast siz x (if y = 4 then ap else y + ast) m')
      else Some (Inr m))"

partial_function (option) alignX ::
  "int \<Rightarrow> int \<Rightarrow> int \<Rightarrow> int \<Rightarrow> Pixel list list \<Rightarrow> (error + Pixel list list) option" where
  "alignX ap ast siz x m =
     (if x + 5 < siz then
        (case alignY ap ast siz x 4 m of
           None \<Rightarrow> None
         | Some (Inl e) \<Rightarrow> Some (Inl e)
         | Some (Inr m') \<Rightarrow> alignX ap ast siz (if x = 4 then ap else x + ast) m')
      else Some (Inr m))"

declare alignY.simps [code]

declare alignX.simps [code]

text \<open>The timing loop of \<^verbatim>\<open>vplan\<close>; \<^verbatim>\<open>ti\<close> is the constant 6.\<close>

definition ti :: int where
  "ti = 6"

definition timing :: "Pixel list list \<Rightarrow> error + Pixel list list" where
  "timing m =
     forM [0..int (length m) - 1] (\<lambda>i m.
       let p = PixelRole_Pixel Timing;
           p = (if i AND 1 = 0 then p OR Black else p)
       in bindE (setPixel m i ti p) (\<lambda>m. setPixel m ti i p)) m"

definition vplan :: "int \<Rightarrow> (error + Plan) option" where
  "vplan v =
     (let p = \<lparr>Version = v, Level = 0, Mask = 0, DataBytes = 0, CheckBytes = 0, Blocks = 0,
               Pixel = []\<rparr> in
      if v < 1 \<or> v > 40 then Some (Inl (InvalidVersion v))
      else
        let siz = 17 + v * 4;
            m = replicate (nat siz) (replicate (nat siz) (0 :: Pixel))
        in case bindE (timing m) (\<lambda>m.
                bindE (posBox m 0 0) (\<lambda>m.
                bindE (posBox m (siz - 7) 0) (\<lambda>m.
                posBox m 0 (siz - 7)))) of
             Inl e \<Rightarrow> Some (Inl e)
           | Inr m \<Rightarrow>
               let info = vtab ! nat v in
               (case alignX (apos info) (astride info) siz 4 m of
                  None \<Rightarrow> None
                | Some (Inl e) \<Rightarrow> Some (Inl e)
                | Some (Inr m) \<Rightarrow> Some (Inr (p\<lparr>Pixel := m\<rparr>))))"

subsection \<open>Format information\<close>

definition formatPoly :: "32 word" where
  "formatPoly = 0x537"

text \<open>The remainder loop \<^verbatim>\<open>for i := 14; i >= 10; i--\<close> of \<^verbatim>\<open>fplan\<close>.\<close>

definition bchrem :: "32 word \<Rightarrow> 32 word" where
  "bchrem w =
     fold (\<lambda>i rem. if rem AND push_bit i 1 \<noteq> 0 then rem XOR push_bit (i - 10) formatPoly else rem)
       (rev [10..<15]) w"

text \<open>The value of \<^verbatim>\<open>fb\<close> after \<^verbatim>\<open>fb |= rem\<close>.\<close>

definition formatBits :: "int \<Rightarrow> int \<Rightarrow> 32 word" where
  "formatBits l m =
     (let fb = push_bit 13 (word_of_int (l XOR 1) :: 32 word);
          fb = fb OR push_bit 10 (word_of_int m)
      in fb OR bchrem fb)"

text \<open>The pixel built at iteration \<open>i\<close> of the placement loop.\<close>

definition formatPixel :: "32 word \<Rightarrow> int \<Rightarrow> Pixel" where
  "formatPixel fb i =
     (let invert = (0x5412 :: 32 word);
          pix = PixelRole_Pixel Format + OffsetPixel i;
          pix = (if drop_bit (nat i) fb AND 1 = 1 then pix OR Black else pix);
          pix = (if drop_bit (nat i) invert AND 1 = 1 then pix XOR (Invert OR Black) else pix)
      in pix)"

definition fplan :: "int \<Rightarrow> int \<Rightarrow> Plan \<Rightarrow> error + Plan" where
  "fplan l m p =
     (let fb = formatBits l m;
          siz = int (length (Pixel p))
      in bindE (forM [0..14] (\<lambda>i g.
                 let pix = formatPixel fb i in
                 bindE (if i < 6 then setPixel g i 8 pix
                        else if i < 8 then setPixel g (i + 1) 8 pix
                        else if i < 9 then setPixel g 8 7 pix
                        else setPixel g 8 (14 - i) pix)
                   (\<lambda>g. if i < 8 then setPixel g 8 (siz - 1 - i) pix
                         else setPixel g (siz - 1 - (14 - i)) 8 pix)) (Pixel p))
           (\<lambda>g. Inr (p\<lparr>Pixel := g\<rparr>)))"

definition lplan :: "int \<Rightarrow> Plan \<Rightarrow> error + Plan" where
  "lplan l p = Inr (p\<lparr>Level := l\<rparr>)"

subsection \<open>Masks\<close>

text \<open>
  Go's \<^verbatim>\<open>%\<close> and \<^verbatim>\<open>/\<close> truncate towards zero.  The arguments are cell indices; the
  products are taken in \<^typ>\<open>int\<close>, which a machine product matches on every grid that fits
  in memory.
\<close>

definition mfunc :: "(int \<Rightarrow> int \<Rightarrow> bool) list" where
  "mfunc =
    [\<lambda>i j. (i + j) smod 2 = 0,
     \<lambda>i j. i smod 2 = 0,
     \<lambda>i j. j smod 3 = 0,
     \<lambda>i j. (i + j) smod 3 = 0,
     \<lambda>i j. (i sdiv 2 + j sdiv 3) smod 2 = 0,
     \<lambda>i j. i * j smod 2 + i * j smod 3 = 0,
     \<lambda>i j. (i * j smod 2 + i * j smod 3) smod 2 = 0,
     \<lambda>i j. (i * j smod 3 + (i + j) smod 2) smod 2 = 0]"

text \<open>
  \<^verbatim>\<open>for y, row := range p.Pixel { for x, pix := range row { ... row[x] = pix | Invert } }\<close>:
  every cell is read once and, when the test holds, written back at its own index.
\<close>

definition mplan :: "int \<Rightarrow> Plan \<Rightarrow> error + Plan" where
  "mplan m p =
     (if 0 \<le> m \<and> m < int (length mfunc) then
        let f = mfunc ! nat m;
            p = p\<lparr>Mask := m\<rparr>
        in Inr (p\<lparr>Pixel :=
             map (\<lambda>(y, row).
               map (\<lambda>(x, pix).
                 if (Role pix = Data \<or> Role pix = Check) \<and> f (int x) (int y)
                 then pix OR Invert else pix) (enumerate 0 row))
               (enumerate 0 (Pixel p))\<rparr>)
      else Inl IndexOutOfRange)"

subsection \<open>The builder\<close>

definition NewPlan :: "int \<Rightarrow> int \<Rightarrow> int \<Rightarrow> (error + Plan) option" where
  "NewPlan ver level msk =
     (case vplan ver of
        None \<Rightarrow> None
      | Some (Inl err) \<Rightarrow> Some (Inl err)
      | Some (Inr p) \<Rightarrow>
          Some (bindE (fplan level msk p) (\<lambda>p.
                bindE (lplan level p) (\<lambda>p.
                mplan msk p))))"

section \<open>What the builder writes\<close>

text \<open>
  The properties below are stated over cell positions.  A position is a pair (row, column),
  the first and the second index of \<^verbatim>\<open>p.Pixel[..][..]\<close>; \<open>cellAt\<close> reads a cell of a plan
  and \<open>inGrid\<close> says that a position lies in a square grid of the given side.
\<close>

definition cellAt :: "Plan \<Rightarrow> int \<times> int \<Rightarrow> Pixel" where
  "cellAt p = (\<lambda>(r, c). Pixel p ! nat r ! nat c)"

definition inGrid :: "int \<Rightarrow> int \<times> int \<Rightarrow> bool" where
  "inGrid n = (\<lambda>(r, c). 0 \<le> r \<and> r < n \<and> 0 \<le> c \<and> c < n)"

subsection \<open>Patterns and the cells they cover\<close>

text \<open>
  \<open>alignBox m x y\<close> covers the 5x5 cells \<open>box5 x y\<close> and writes \<open>alignPattern x y\<close> there;
  \<open>posBox m x y\<close> covers the 7x7 box and the in-grid part of its one-cell border, together
  \<open>posRegion n x y\<close>, and writes \<open>posPattern x y\<close>; the timing loop covers row 6 and column 6
  with \<open>timingPattern\<close>.  The patterns repeat the conditions of the source with
  \<open>dx = c - x\<close> and \<open>dy = r - y\<close>.
\<close>

definition box5 :: "int \<Rightarrow> int \<Rightarrow> (int \<times> int) set" where
  "box5 x y = {(r, c). y \<le> r \<and> r < y + 5 \<and> x \<le> c \<and> c < x + 5}"

definition alignPattern :: "int \<Rightarrow> int \<Rightarrow> int \<times> int \<Rightarrow> Pixel" where
  "alignPattern x y = (\<lambda>(r, c).
     if c - x = 0 \<or> c - x = 4 \<or> r - y = 0 \<or> r - y = 4 \<or> c - x = 2 \<and> r - y = 2
     then PixelRole_Pixel Alignment OR Black else PixelRole_Pixel Alignment)"

definition posRegion :: "int \<Rightarrow> int \<Rightarrow> int \<Rightarrow> (int \<times> int) set" where
  "posRegion n x y =
     {(r, c). y - 1 \<le> r \<and> r \<le> y + 7 \<and> x - 1 \<le> c \<and> c \<le> x + 7 \<and>
              0 \<le> r \<and> r < n \<and> 0 \<le> c \<and> c < n}"

definition posPattern :: "int \<Rightarrow> int \<Rightarrow> int \<times> int \<Rightarrow> Pixel" where
  "posPattern x y = (\<lambda>(r, c).
     if 0 \<le> c - x \<and> c - x \<le> 6 \<and> 0 \<le> r - y \<and> r - y \<le> 6 \<and>
        (c - x = 0 \<or> c - x = 6 \<or> r - y = 0 \<or> r - y = 6 \<or>
         2 \<le> c - x \<and> c - x \<le> 4 \<and> 2 \<le> r - y \<and> r - y \<le> 4)
     then PixelRole_Pixel Position OR Black else PixelRole_Pixel Position)"

definition timingSet :: "int \<Rightarrow> (int \<times> int) set" where
  "timingSet n = {(r, c). 0 \<le> r \<and> r < n \<and> 0 \<le> c \<and> c < n \<and> (r = 6 \<or> c = 6)}"

definition timingPattern :: "int \<times> int \<Rightarrow> Pixel" where
  "timingPattern = (\<lambda>(r, c).
     if (if c = 6 then r else c) AND 1 = 0
     then PixelRole_Pixel Timing OR Black else PixelRole_Pixel Timing)"

subsection \<open>The alignment walk\<close>

text \<open>
  \<open>steps d hi x\<close> lists \<open>x\<close>, \<open>x + d\<close>, ... up to \<open>hi\<close>.  The loop variable of either alignment
  loop takes the values \<open>axisWalk\<close> (the guard \<^verbatim>\<open>x+5 < siz\<close> is \<open>x \<le> siz - 6\<close>);
  \<open>excluded\<close> is the test that guards \<^verbatim>\<open>alignBox\<close>, \<open>alignStep\<close> one iteration of the inner
  loop and \<open>alignRow\<close> one iteration of the outer loop; \<open>stamped\<close> lists the corners at which
  \<^verbatim>\<open>alignBox\<close> is called, in the order of the calls.  \<open>entry_ok\<close> collects what the proofs
  need of a table entry.
\<close>

function steps :: "int \<Rightarrow> int \<Rightarrow> int \<Rightarrow> int list" where
  "steps d hi x = (if 0 < d \<and> x \<le> hi then x # steps d hi (x + d) else [])"
  by pat_completeness auto

termination
  by (relation "measure (\<lambda>(d, hi, x). nat (hi + 1 - x))") auto

declare steps.simps [simp del]

definition excluded :: "int \<Rightarrow> int \<Rightarrow> int \<Rightarrow> bool" where
  "excluded siz x y \<longleftrightarrow> (x < 7 \<and> y < 7) \<or> (x < 7 \<and> y + 5 \<ge> siz - 7) \<or> (x + 5 \<ge> siz - 7 \<and> y < 7)"

definition alignStep :: "int \<Rightarrow> int \<Rightarrow> int \<Rightarrow> Pixel list list \<Rightarrow> error + Pixel list list" where
  "alignStep siz x y m = (if excluded siz x y then Inr m else alignBox m x y)"

definition alignRow :: "int list \<Rightarrow> int \<Rightarrow> int \<Rightarrow> Pixel list list \<Rightarrow> error + Pixel list list" where
  "alignRow ys siz x m = forM ys (alignStep siz x) m"

definition axisWalk :: "version \<Rightarrow> int \<Rightarrow> int list" where
  "axisWalk info siz = 4 # steps (astride info) (siz - 6) (apos info)"

definition stamped :: "version \<Rightarrow> int \<Rightarrow> (int \<times> int) list" where
  "stamped info siz =
     filter (\<lambda>(x, y). \<not> excluded siz x y) (List.product (axisWalk info siz) (axisWalk info siz))"

definition entry_ok :: "version \<Rightarrow> int \<Rightarrow> bool" where
  "entry_ok info siz \<longleftrightarrow>
     16 \<le> apos info \<and> 16 \<le> astride info \<and>
     steps (astride info) (siz - 6) (apos info) = steps (astride info) (siz - 9) (apos info)"

text \<open>
  The alignment layout in the words of the specification: per axis the candidates start at
  4, jump to \<open>apos\<close> and step by \<open>astride\<close> until they exceed \<open>siz - 9\<close>; a candidate corner is
  dropped when its 5x5 footprint meets a finder box or its light border.
\<close>

definition axisCandidates :: "version \<Rightarrow> int \<Rightarrow> int list" where
  "axisCandidates info siz = 4 # steps (astride info) (siz - 9) (apos info)"

definition finderZones :: "int \<Rightarrow> (int \<times> int) set" where
  "finderZones siz = posRegion siz 0 0 \<union> posRegion siz (siz - 7) 0 \<union> posRegion siz 0 (siz - 7)"

definition alignCorners :: "version \<Rightarrow> int \<Rightarrow> (int \<times> int) list" where
  "alignCorners info siz =
     filter (\<lambda>(x, y). box5 x y \<inter> finderZones siz = {})
       (List.product (axisCandidates info siz) (axisCandidates info siz))"

subsection \<open>The format cells\<close>

text \<open>
  \<open>fmtA i\<close> and \<open>fmtB siz i\<close> are the index pairs of the two \<^verbatim>\<open>switch\<close> statements of
  \<open>fplan\<close> at iteration \<open>i\<close>; \<open>fmtA_index\<close> and \<open>fmtB_index\<close> recover \<open>i\<close> from the pair.
\<close>

definition fmtA :: "int \<Rightarrow> int \<times> int" where
  "fmtA i = (if i < 6 then (i, 8) else if i < 8 then (i + 1, 8) else if i < 9 then (8, 7) else (8, 14 - i))"

definition fmtB :: "int \<Rightarrow> int \<Rightarrow> int \<times> int" where
  "fmtB siz i = (if i < 8 then (8, siz - 1 - i) else (siz - 1 - (14 - i), 8))"

definition fmtCells :: "int \<Rightarrow> (int \<times> int) set" where
  "fmtCells n = (\<Union>i\<in>{0..14}. {fmtA i, fmtB n i})"

definition fmtA_index :: "int \<times> int \<Rightarrow> int" where
  "fmtA_index = (\<lambda>(r, c). if c = 8 then (if r < 6 then r else r - 1) else if c = 7 then 8 else 14 - c)"

definition fmtB_index :: "int \<Rightarrow> int \<times> int \<Rightarrow> int" where
  "fmtB_index n = (\<lambda>(r, c). if r = 8 then n - 1 - c else r - (n - 15))"

text \<open>
  The cells that the builder writes: the timing row and column, the three finder boxes with
  their borders, the stamped alignment boxes and the thirty format cells.
\<close>

definition patternCells :: "version \<Rightarrow> int \<Rightarrow> (int \<times> int) set" where
  "patternCells info n =
     timingSet n \<union> posRegion n 0 0 \<union> posRegion n (n - 7) 0 \<union> posRegion n 0 (n - 7) \<union>
     (\<Union>(x, y)\<in>set (stamped info n). box5 x y) \<union> fmtCells n"

text \<open>
  The 15-bit value spelled by the Black flags of the pixels that \<open>fplan\<close> places, bit \<open>i\<close>
  taken from the pixel of iteration \<open>i\<close>.
\<close>

definition placedFormat :: "32 word \<Rightarrow> 32 word" where
  "placedFormat fb = fold (\<lambda>i w. w OR push_bit i (formatPixel fb (int i) AND Black)) [0..<15] 0"

text \<open>
  Multiplication of polynomials over GF(2), bit \<open>i\<close> of a word being the coefficient of
  \<open>x\<^sup>i\<close>: the product is the XOR of the shifts of \<open>b\<close> by the positions of the set bits of
  \<open>a\<close>.  It does not refer to the remainder loop of \<open>fplan\<close>.
\<close>

definition gf2_mul :: "32 word \<Rightarrow> 32 word \<Rightarrow> 32 word" where
  "gf2_mul a b = fold (\<lambda>i acc. if drop_bit i a AND 1 = 1 then acc XOR push_bit i b else acc) [0..<32] 0"

text \<open>
  Reading the format field back from a plan, along the cells next to the top-left finder in
  offset order: the Black flags, the Invert flags, and the colour that the rule
  ``black XOR invert'' gives.
\<close>

definition rendered :: "Pixel \<Rightarrow> 32 word" where
  "rendered px = (px AND Black) XOR (drop_bit 1 px AND 1)"

definition readFormat :: "(Pixel \<Rightarrow> 32 word) \<Rightarrow> (int \<Rightarrow> Pixel) \<Rightarrow> 32 word" where
  "readFormat h cell = fold (\<lambda>i w. w OR push_bit i (h (cell (int i)))) [0..<15] 0"

definition blackFormat :: "Plan \<Rightarrow> 32 word" where
  "blackFormat p = readFormat (\<lambda>px. px AND Black) (\<lambda>i. cellAt p (fmtA i))"

definition invertFormat :: "Plan \<Rightarrow> 32 word" where
  "invertFormat p = readFormat (\<lambda>px. drop_bit 1 px AND 1) (\<lambda>i. cellAt p (fmtA i))"

definition drawnFormat :: "Plan \<Rightarrow> 32 word" where
  "drawnFormat p = readFormat rendered (\<lambda>i. cellAt p (fmtA i))"

text \<open>
  The eight mask formulas as the specification lists them, over non-negative \<open>i\<close> and \<open>j\<close>.
\<close>

definition maskFormula :: "int \<Rightarrow> int \<Rightarrow> int \<Rightarrow> bool" where
  "maskFormula m i j =
     (if m = 0 then (i + j) mod 2 = 0
      else if m = 1 then i mod 2 = 0
      else if m = 2 then j mod 3 = 0
      else if m = 3 then (i + j) mod 3 = 0
      else if m = 4 then (i div 2 + j div 3) mod 2 = 0
      else if m = 5 then i * j mod 2 + i * j mod 3 = 0
      else if m = 6 then (i * j mod 2 + i * j mod 3) mod 2 = 0
      else (i * j mod 3 + (i + j) mod 2) mod 2 = 0)"

subsection \<open>Grids as functions of the position\<close>

text \<open>
  For the proofs a square grid \<open>m\<close> of side \<open>n\<close> is represented by a function \<open>g\<close> from
  positions to pixels (\<open>grid_rep\<close>).  \<open>writes n f T\<close> says that the grid operation \<open>f\<close> returns
  without a panic on every such grid and turns \<open>g\<close> into \<open>T g\<close>; \<open>stamp S V\<close> overwrites the
  cells of \<open>S\<close> with the pattern \<open>V\<close>.  \<open>geometry\<close> is the grid after \<open>vplan\<close>, \<open>formatT\<close> the
  effect of \<open>fplan\<close>, \<open>maskT\<close> the effect of \<open>mplan\<close> and \<open>finalGrid\<close> the grid that
  \<open>NewPlan\<close> returns.
\<close>

definition stamp :: "(int \<times> int) set \<Rightarrow> (int \<times> int \<Rightarrow> Pixel) \<Rightarrow> (int \<times> int \<Rightarrow> Pixel) \<Rightarrow> int \<times> int \<Rightarrow> Pixel" where
  "stamp S V g = (\<lambda>p. if p \<in> S then V p else g p)"

definition grid_rep :: "int \<Rightarrow> Pixel list list \<Rightarrow> (int \<times> int \<Rightarrow> Pixel) \<Rightarrow> bool" where
  "grid_rep n m g \<longleftrightarrow>
     int (length m) = n \<and> (\<forall>i < length m. int (length (m ! i)) = n) \<and>
     (\<forall>i j. 0 \<le> i \<and> i < n \<and> 0 \<le> j \<and> j < n \<longrightarrow> m ! nat i ! nat j = g (i, j))"

definition writes :: "int \<Rightarrow> (Pixel list list \<Rightarrow> error + Pixel list list) \<Rightarrow> ((int \<times> int \<Rightarrow> Pixel) \<Rightarrow> int \<times> int \<Rightarrow> Pixel) \<Rightarrow> bool" where
  "writes n f T \<longleftrightarrow> (\<forall>m g. grid_rep n m g \<longrightarrow> (\<exists>m'. f m = Inr m' \<and> grid_rep n m' (T g)))"

definition finders :: "int \<Rightarrow> (int \<times> int \<Rightarrow> Pixel) \<Rightarrow> int \<times> int \<Rightarrow> Pixel" where
  "finders n g =
     stamp (posRegion n 0 (n - 7)) (posPattern 0 (n - 7))
       (stamp (posRegion n (n - 7) 0) (posPattern (n - 7) 0)
         (stamp (posRegion n 0 0) (posPattern 0 0) g))"

definition background :: "int \<Rightarrow> int \<times> int \<Rightarrow> Pixel" where
  "background n = finders n (stamp (timingSet n) timingPattern (\<lambda>_. 0))"

definition geometry :: "version \<Rightarrow> int \<Rightarrow> int \<times> int \<Rightarrow> Pixel" where
  "geometry info n =
     fold (\<lambda>(x, y). stamp (box5 x y) (alignPattern x y)) (stamped info n)
       (finders n (stamp (timingSet n) timingPattern (\<lambda>_. 0)))"

definition formatT :: "32 word \<Rightarrow> int \<Rightarrow> (int \<times> int \<Rightarrow> Pixel) \<Rightarrow> int \<times> int \<Rightarrow> Pixel" where
  "formatT fb n = fold (\<lambda>i. stamp {fmtA i, fmtB n i} (\<lambda>_. formatPixel fb i)) [0..14]"

definition maskT :: "(int \<Rightarrow> int \<Rightarrow> bool) \<Rightarrow> (int \<times> int \<Rightarrow> Pixel) \<Rightarrow> int \<times> int \<Rightarrow> Pixel" where
  "maskT f g = (\<lambda>(r, c). if (Role (g (r, c)) = Data \<or> Role (g (r, c)) = Check) \<and> f c r
                          then g (r, c) OR Invert else g (r, c))"

definition finalGrid :: "int \<Rightarrow> int \<Rightarrow> int \<Rightarrow> int \<times> int \<Rightarrow> Pixel" where
  "finalGrid v l k =
     maskT (mfunc ! nat k) (formatT (formatBits l k) (17 + v * 4) (geometry (vtab ! nat v) (17 + v * 4)))"

section \<open>The stages as overwrites of cells\<close>

subsection \<open>Grid operations as overwrites\<close>

lemma grid_rep_length: "grid_rep n m g \<Longrightarrow> int (length m) = n"
  by (simp add: grid_rep_def)

lemma writesI:
  assumes "\<And>m g. grid_rep n m g \<Longrightarrow> \<exists>m'. f m = Inr m' \<and> grid_rep n m' (T g)"
  shows "writes n f T"
  using assms by (simp add: writes_def)

lemma writesD:
  assumes "writes n f T" "grid_rep n m g"
  obtains m' where "f m = Inr m'" "grid_rep n m' (T g)"
  using assms by (auto simp: writes_def)

lemma writes_setPixel:
  assumes "0 \<le> i" "i < n" "0 \<le> j" "j < n" "V (i, j) = v"
  shows "writes n (\<lambda>m. setPixel m i j v) (stamp {(i, j)} V)"
proof (rule writesI)
  fix m g assume r: "grid_rep n m g"
  from r assms have len: "nat i < length m" "int (length (m ! nat i)) = n"
    by (auto simp: grid_rep_def)
  let ?m' = "m[nat i := (m ! nat i)[nat j := v]]"
  have "setPixel m i j v = Inr ?m'"
    using assms len by (simp add: setPixel_def)
  moreover have "grid_rep n ?m' (stamp {(i, j)} V g)"
    unfolding grid_rep_def
  proof (intro conjI allI impI)
    show "int (length ?m') = n" using r by (simp add: grid_rep_def)
  next
    fix k assume "k < length ?m'"
    then show "int (length (?m' ! k)) = n"
      using r len by (cases "k = nat i") (auto simp: grid_rep_def)
  next
    fix a b assume ab: "0 \<le> a \<and> a < n \<and> 0 \<le> b \<and> b < n"
    then have "nat a < length m" using r by (auto simp: grid_rep_def)
    then show "?m' ! nat a ! nat b = stamp {(i, j)} V g (a, b)"
      using r len ab assms
      by (cases "a = i"; cases "b = j") (auto simp: grid_rep_def stamp_def nth_list_update)
  qed
  ultimately show "\<exists>m'. setPixel m i j v = Inr m' \<and> grid_rep n m' (stamp {(i, j)} V g)"
    by blast
qed

lemma stamp_empty [simp]: "stamp {} V g = g"
  by (simp add: stamp_def)

lemma stamp_empty_fun: "stamp {} V = (\<lambda>g. g)"
  by (rule ext) simp

lemma stamp_stamp: "stamp S2 V (stamp S1 V g) = stamp (S1 \<union> S2) V g"
  by (auto simp: stamp_def)

lemma writes_skip: "writes n Inr (\<lambda>g. g)"
  by (simp add: writes_def)

lemma writes_bindE:
  assumes "writes n f T1" "writes n f' T2"
  shows "writes n (\<lambda>m. bindE (f m) f') (\<lambda>g. T2 (T1 g))"
proof (rule writesI)
  fix m g assume r: "grid_rep n m g"
  from assms(1) r obtain m1 where 1: "f m = Inr m1" "grid_rep n m1 (T1 g)" by (rule writesD)
  from assms(2) 1(2) obtain m2 where 2: "f' m1 = Inr m2" "grid_rep n m2 (T2 (T1 g))" by (rule writesD)
  show "\<exists>m'. bindE (f m) f' = Inr m' \<and> grid_rep n m' (T2 (T1 g))"
    using 1 2 by (simp add: bindE_def)
qed

lemma writes_forM:
  assumes "\<And>x. x \<in> set xs \<Longrightarrow> writes n (f x) (T x)"
  shows "writes n (forM xs f) (fold T xs)"
  using assms
proof (induction xs)
  case Nil
  show ?case by (simp add: writes_def)
next
  case (Cons x xs)
  have hd: "writes n (f x) (T x)" using Cons.prems by simp
  have tl: "writes n (forM xs f) (fold T xs)" using Cons by simp
  show ?case
  proof (rule writesI)
    fix m g assume r: "grid_rep n m g"
    from hd r obtain m1 where 1: "f x m = Inr m1" "grid_rep n m1 (T x g)" by (rule writesD)
    from tl 1(2) obtain m2 where 2: "forM xs f m1 = Inr m2" "grid_rep n m2 (fold T xs (T x g))" by (rule writesD)
    show "\<exists>m'. forM (x # xs) f m = Inr m' \<and> grid_rep n m' (fold T (x # xs) g)"
      using 1 2 by simp
  qed
qed

lemma fold_stamp_same: "fold (\<lambda>x. stamp (S x) V) xs g = stamp (\<Union>x\<in>set xs. S x) V g"
  by (induction xs arbitrary: g) (auto simp: stamp_stamp Un_ac)

lemma writes_cong_len:
  assumes "\<And>m. int (length m) = n \<Longrightarrow> f m = f' m" "writes n f' T"
  shows "writes n f T"
  using assms by (auto simp: writes_def grid_rep_def)

lemma writes_if:
  assumes "b \<Longrightarrow> writes n f T" "\<not> b \<Longrightarrow> writes n f' T"
  shows "writes n (\<lambda>m. if b then f m else f' m) T"
  using assms by (cases b) simp_all

lemma writes_eq:
  assumes "writes n f T" "\<And>g. T g = T' g"
  shows "writes n f T'"
proof -
  have "T = T'" using assms(2) by (rule ext)
  with assms(1) show ?thesis by simp
qed

lemma writes_set_opt:
  assumes "b \<Longrightarrow> 0 \<le> i \<and> i < n \<and> 0 \<le> j \<and> j < n \<and> V (i, j) = v"
  shows "writes n (\<lambda>m. if b then setPixel m i j v else Inr m) (stamp (if b then {(i, j)} else {}) V)"
proof (rule writes_if)
  assume b
  with assms show "writes n (\<lambda>m. setPixel m i j v) (stamp (if b then {(i, j)} else {}) V)"
    by (simp add: writes_setPixel)
next
  assume "\<not> b"
  then show "writes n Inr (stamp (if b then {(i, j)} else {}) V)"
    using writes_skip [of n] by (simp add: stamp_empty_fun)
qed

lemma writes_seq_stamp:
  assumes "writes n f (stamp S1 V)" "writes n f' (stamp S2 V)"
  shows "writes n (\<lambda>m. bindE (f m) f') (stamp (S1 \<union> S2) V)"
  by (rule writes_eq [OF writes_bindE [OF assms]]) (simp add: stamp_stamp)

lemma writes_forM_stamp:
  assumes "\<And>x. x \<in> set xs \<Longrightarrow> writes n (f x) (stamp (S x) V)"
  shows "writes n (forM xs f) (stamp (\<Union>x\<in>set xs. S x) V)"
  by (rule writes_eq [OF writes_forM [where T = "\<lambda>x. stamp (S x) V", OF assms]])
     (simp_all add: fold_stamp_same)

subsection \<open>The boxes and the timing lines\<close>

lemma writes_alignBox:
  assumes "0 \<le> x" "x + 5 \<le> n" "0 \<le> y" "y + 5 \<le> n"
  shows "writes n (\<lambda>m. alignBox m x y) (stamp (box5 x y) (alignPattern x y))"
proof -
  let ?V = "alignPattern x y"
  have cell: "writes n (\<lambda>m. setPixel m (y + dy) (x + dx)
       (if dx = 0 \<or> dx = 4 \<or> dy = 0 \<or> dy = 4 \<or> dx = 2 \<and> dy = 2
        then PixelRole_Pixel Alignment OR Black else PixelRole_Pixel Alignment))
      (stamp {(y + dy, x + dx)} ?V)"
    if "dy \<in> set [0..4]" "dx \<in> set [0..4]" for dx dy
    using that assms by (intro writes_setPixel) (auto simp: alignPattern_def)
  have row: "writes n (forM [0..4] (\<lambda>dx m. setPixel m (y + dy) (x + dx)
       (if dx = 0 \<or> dx = 4 \<or> dy = 0 \<or> dy = 4 \<or> dx = 2 \<and> dy = 2
        then PixelRole_Pixel Alignment OR Black else PixelRole_Pixel Alignment)))
      (stamp (\<Union>dx\<in>set [0..4]. {(y + dy, x + dx)}) ?V)"
    if "dy \<in> set [0..4]" for dy
    by (rule writes_forM_stamp) (rule cell [OF that])
  have all: "writes n (forM [0..4] (\<lambda>dy. forM [0..4] (\<lambda>dx m. setPixel m (y + dy) (x + dx)
       (if dx = 0 \<or> dx = 4 \<or> dy = 0 \<or> dy = 4 \<or> dx = 2 \<and> dy = 2
        then PixelRole_Pixel Alignment OR Black else PixelRole_Pixel Alignment))))
      (stamp (\<Union>dy\<in>set [0..4]. \<Union>dx\<in>set [0..4]. {(y + dy, x + dx)}) ?V)"
    by (rule writes_forM_stamp) (rule row)
  have S: "(\<Union>dy\<in>set [0..4]. \<Union>dx\<in>set [0..4]. {(y + dy, x + dx)}) = box5 x y"
  proof (rule set_eqI)
    fix p :: "int \<times> int"
    obtain r c where p: "p = (r, c)" by (cases p)
    have "(\<exists>dy\<in>{0..4}. \<exists>dx\<in>{0..4}. r = y + dy \<and> c = x + dx) \<longleftrightarrow>
          (y \<le> r \<and> r < y + 5 \<and> x \<le> c \<and> c < x + 5)"
    proof
      assume "y \<le> r \<and> r < y + 5 \<and> x \<le> c \<and> c < x + 5"
      then have "r - y \<in> {0..4}" "c - x \<in> {0..4}" "r = y + (r - y)" "c = x + (c - x)" by auto
      then show "\<exists>dy\<in>{0..4}. \<exists>dx\<in>{0..4}. r = y + dy \<and> c = x + dx" by blast
    qed auto
    then show "p \<in> (\<Union>dy\<in>set [0..4]. \<Union>dx\<in>set [0..4]. {(y + dy, x + dx)}) \<longleftrightarrow> p \<in> box5 x y"
      by (simp add: p box5_def)
  qed
  show ?thesis
    unfolding alignBox_def Let_def using all by (simp only: S)
qed

lemma writes_border_step:
  assumes 1: "0 \<le> a \<and> a < n \<Longrightarrow> b0 \<Longrightarrow> 0 \<le> i1 \<and> i1 < n \<and> 0 \<le> j1 \<and> j1 < n \<and> V (i1, j1) = v"
    and 2: "0 \<le> a \<and> a < n \<Longrightarrow> z < n \<Longrightarrow> 0 \<le> i2 \<and> i2 < n \<and> 0 \<le> j2 \<and> j2 < n \<and> V (i2, j2) = v"
  shows "writes n
     (\<lambda>m. if 0 \<le> a \<and> a < int (length m) then
             bindE (if b0 then setPixel m i1 j1 v else Inr m)
               (\<lambda>m. if z < int (length m) then setPixel m i2 j2 v else Inr m)
           else Inr m)
     (stamp (if 0 \<le> a \<and> a < n
             then (if b0 then {(i1, j1)} else {}) \<union> (if z < n then {(i2, j2)} else {})
             else {}) V)"
proof (rule writes_cong_len [where f' = "\<lambda>m. if 0 \<le> a \<and> a < n then
             bindE (if b0 then setPixel m i1 j1 v else Inr m)
               (\<lambda>m. if z < int (length m) then setPixel m i2 j2 v else Inr m)
           else Inr m"])
  show "writes n (\<lambda>m. if 0 \<le> a \<and> a < n then
             bindE (if b0 then setPixel m i1 j1 v else Inr m)
               (\<lambda>m. if z < int (length m) then setPixel m i2 j2 v else Inr m)
           else Inr m)
     (stamp (if 0 \<le> a \<and> a < n
             then (if b0 then {(i1, j1)} else {}) \<union> (if z < n then {(i2, j2)} else {})
             else {}) V)"
  proof (rule writes_if)
    assume a: "0 \<le> a \<and> a < n"
    have s1: "writes n (\<lambda>m. if b0 then setPixel m i1 j1 v else Inr m)
                (stamp (if b0 then {(i1, j1)} else {}) V)"
      by (rule writes_set_opt) (rule 1 [OF a])
    have s2': "writes n (\<lambda>m. if z < n then setPixel m i2 j2 v else Inr m)
                (stamp (if z < n then {(i2, j2)} else {}) V)"
      by (rule writes_set_opt) (rule 2 [OF a])
    have s2: "writes n (\<lambda>m. if z < int (length m) then setPixel m i2 j2 v else Inr m)
                (stamp (if z < n then {(i2, j2)} else {}) V)"
      by (rule writes_cong_len [OF _ s2']) simp
    show "writes n (\<lambda>m. bindE (if b0 then setPixel m i1 j1 v else Inr m)
               (\<lambda>m. if z < int (length m) then setPixel m i2 j2 v else Inr m))
       (stamp (if 0 \<le> a \<and> a < n
             then (if b0 then {(i1, j1)} else {}) \<union> (if z < n then {(i2, j2)} else {})
             else {}) V)"
      using writes_seq_stamp [OF s1 s2] a by simp
  next
    assume "\<not> (0 \<le> a \<and> a < n)"
    then show "writes n Inr (stamp (if 0 \<le> a \<and> a < n
             then (if b0 then {(i1, j1)} else {}) \<union> (if z < n then {(i2, j2)} else {})
             else {}) V)"
      using writes_skip [of n] by (auto simp: stamp_empty_fun)
  qed
qed simp

lemma writes_posBox:
  assumes "0 \<le> x" "x + 7 \<le> n" "0 \<le> y" "y + 7 \<le> n"
  shows "writes n (\<lambda>m. posBox m x y) (stamp (posRegion n x y) (posPattern x y))"
proof -
  let ?V = "posPattern x y"
  let ?pos = "PixelRole_Pixel Position"
  let ?px = "\<lambda>dx dy. if dx = 0 \<or> dx = 6 \<or> dy = 0 \<or> dy = 6 \<or> 2 \<le> dx \<and> dx \<le> 4 \<and> 2 \<le> dy \<and> dy \<le> 4
                     then ?pos OR Black else ?pos"
  let ?S1 = "\<Union>dy\<in>set [0..6]. \<Union>dx\<in>set [0..6]. {(y + dy, x + dx)}"
  let ?S2 = "\<lambda>dy. if 0 \<le> y + dy \<and> y + dy < n
             then (if x > 0 then {(y + dy, x - 1)} else {}) \<union> (if x + 7 < n then {(y + dy, x + 7)} else {})
             else {}"
  let ?S3 = "\<lambda>dx. if 0 \<le> x + dx \<and> x + dx < n
             then (if y > 0 then {(y - 1, x + dx)} else {}) \<union> (if y + 7 < n then {(y + 7, x + dx)} else {})
             else {}"
  have cell: "writes n (\<lambda>m. setPixel m (y + dy) (x + dx) (?px dx dy)) (stamp {(y + dy, x + dx)} ?V)"
    if "dy \<in> set [0..6]" "dx \<in> set [0..6]" for dx dy
    using that assms by (intro writes_setPixel) (auto simp: posPattern_def)
  have row: "writes n (forM [0..6] (\<lambda>dx m. setPixel m (y + dy) (x + dx) (?px dx dy)))
      (stamp (\<Union>dx\<in>set [0..6]. {(y + dy, x + dx)}) ?V)"
    if "dy \<in> set [0..6]" for dy
    by (rule writes_forM_stamp) (rule cell [OF that])
  have st1: "writes n (forM [0..6] (\<lambda>dy. forM [0..6] (\<lambda>dx m. setPixel m (y + dy) (x + dx) (?px dx dy))))
      (stamp ?S1 ?V)"
    by (rule writes_forM_stamp) (rule row)
  have b2: "writes n (\<lambda>m. if 0 \<le> y + dy \<and> y + dy < int (length m) then
                 bindE (if x > 0 then setPixel m (y + dy) (x - 1) ?pos else Inr m)
                   (\<lambda>m. if x + 7 < int (length m) then setPixel m (y + dy) (x + 7) ?pos else Inr m)
               else Inr m) (stamp (?S2 dy) ?V)" for dy
    using assms by (intro writes_border_step) (auto simp: posPattern_def)
  have st2: "writes n (forM [-1..7] (\<lambda>dy m. if 0 \<le> y + dy \<and> y + dy < int (length m) then
                 bindE (if x > 0 then setPixel m (y + dy) (x - 1) ?pos else Inr m)
                   (\<lambda>m. if x + 7 < int (length m) then setPixel m (y + dy) (x + 7) ?pos else Inr m)
               else Inr m)) (stamp (\<Union>dy\<in>set [-1..7]. ?S2 dy) ?V)"
    by (rule writes_forM_stamp) (rule b2)
  have b3: "writes n (\<lambda>m. if 0 \<le> x + dx \<and> x + dx < int (length m) then
                 bindE (if y > 0 then setPixel m (y - 1) (x + dx) ?pos else Inr m)
                   (\<lambda>m. if y + 7 < int (length m) then setPixel m (y + 7) (x + dx) ?pos else Inr m)
               else Inr m) (stamp (?S3 dx) ?V)" for dx
    using assms by (intro writes_border_step) (auto simp: posPattern_def)
  have st3: "writes n (forM [-1..7] (\<lambda>dx m. if 0 \<le> x + dx \<and> x + dx < int (length m) then
                 bindE (if y > 0 then setPixel m (y - 1) (x + dx) ?pos else Inr m)
                   (\<lambda>m. if y + 7 < int (length m) then setPixel m (y + 7) (x + dx) ?pos else Inr m)
               else Inr m)) (stamp (\<Union>dx\<in>set [-1..7]. ?S3 dx) ?V)"
    by (rule writes_forM_stamp) (rule b3)
  have S: "?S1 \<union> ((\<Union>dy\<in>set [-1..7]. ?S2 dy) \<union> (\<Union>dx\<in>set [-1..7]. ?S3 dx)) = posRegion n x y"
  proof (rule set_eqI)
    fix p :: "int \<times> int"
    obtain r c where p: "p = (r, c)" by (cases p)
    have 1: "p \<in> ?S1 \<longleftrightarrow> y \<le> r \<and> r \<le> y + 6 \<and> x \<le> c \<and> c \<le> x + 6"
    proof -
      have "(\<exists>dy\<in>{0..6}. \<exists>dx\<in>{0..6}. r = y + dy \<and> c = x + dx) \<longleftrightarrow>
            (y \<le> r \<and> r \<le> y + 6 \<and> x \<le> c \<and> c \<le> x + 6)"
      proof
        assume "y \<le> r \<and> r \<le> y + 6 \<and> x \<le> c \<and> c \<le> x + 6"
        then have "r - y \<in> {0..6}" "c - x \<in> {0..6}" "r = y + (r - y)" "c = x + (c - x)" by auto
        then show "\<exists>dy\<in>{0..6}. \<exists>dx\<in>{0..6}. r = y + dy \<and> c = x + dx" by blast
      qed auto
      then show ?thesis by (simp add: p)
    qed
    have 2: "p \<in> (\<Union>dy\<in>set [-1..7]. ?S2 dy) \<longleftrightarrow>
             y - 1 \<le> r \<and> r \<le> y + 7 \<and> 0 \<le> r \<and> r < n \<and> (x > 0 \<and> c = x - 1 \<or> x + 7 < n \<and> c = x + 7)"
    proof -
      have "(\<exists>dy\<in>set [-1..7]. p \<in> ?S2 dy) \<longleftrightarrow>
            (y - 1 \<le> r \<and> r \<le> y + 7 \<and> 0 \<le> r \<and> r < n \<and> (x > 0 \<and> c = x - 1 \<or> x + 7 < n \<and> c = x + 7))"
      proof
        assume a: "y - 1 \<le> r \<and> r \<le> y + 7 \<and> 0 \<le> r \<and> r < n \<and> (x > 0 \<and> c = x - 1 \<or> x + 7 < n \<and> c = x + 7)"
        then have "r - y \<in> set [-1..7]" by auto
        moreover from a have "p \<in> ?S2 (r - y)" by (auto simp: p)
        ultimately show "\<exists>dy\<in>set [-1..7]. p \<in> ?S2 dy" by blast
      qed (auto simp: p split: if_splits)
      then show ?thesis by (simp only: UN_iff)
    qed
    have 3: "p \<in> (\<Union>dx\<in>set [-1..7]. ?S3 dx) \<longleftrightarrow>
             x - 1 \<le> c \<and> c \<le> x + 7 \<and> 0 \<le> c \<and> c < n \<and> (y > 0 \<and> r = y - 1 \<or> y + 7 < n \<and> r = y + 7)"
    proof -
      have "(\<exists>dx\<in>set [-1..7]. p \<in> ?S3 dx) \<longleftrightarrow>
            (x - 1 \<le> c \<and> c \<le> x + 7 \<and> 0 \<le> c \<and> c < n \<and> (y > 0 \<and> r = y - 1 \<or> y + 7 < n \<and> r = y + 7))"
      proof
        assume a: "x - 1 \<le> c \<and> c \<le> x + 7 \<and> 0 \<le> c \<and> c < n \<and> (y > 0 \<and> r = y - 1 \<or> y + 7 < n \<and> r = y + 7)"
        then have "c - x \<in> set [-1..7]" by auto
        moreover from a have "p \<in> ?S3 (c - x)" by (auto simp: p)
        ultimately show "\<exists>dx\<in>set [-1..7]. p \<in> ?S3 dx" by blast
      qed (auto simp: p split: if_splits)
      then show ?thesis by (simp only: UN_iff)
    qed
    have 4: "p \<in> posRegion n x y \<longleftrightarrow> y - 1 \<le> r \<and> r \<le> y + 7 \<and> x - 1 \<le> c \<and> c \<le> x + 7 \<and>
              0 \<le> r \<and> r < n \<and> 0 \<le> c \<and> c < n"
      by (simp add: p posRegion_def)
    show "p \<in> ?S1 \<union> ((\<Union>dy\<in>set [-1..7]. ?S2 dy) \<union> (\<Union>dx\<in>set [-1..7]. ?S3 dx)) \<longleftrightarrow> p \<in> posRegion n x y"
      unfolding Un_iff 1 2 3 4 using assms by arith
  qed
  have "writes n (\<lambda>m. posBox m x y) (stamp (?S1 \<union> ((\<Union>dy\<in>set [-1..7]. ?S2 dy) \<union> (\<Union>dx\<in>set [-1..7]. ?S3 dx))) ?V)"
    unfolding posBox_def Let_def
    by (rule writes_seq_stamp [OF st1 writes_seq_stamp [OF st2 st3]])
  then show ?thesis by (simp only: S)
qed

lemma writes_timing:
  assumes "6 < n"
  shows "writes n timing (stamp (timingSet n) timingPattern)"
proof -
  let ?V = timingPattern
  let ?p = "\<lambda>i::int. if i AND 1 = 0 then PixelRole_Pixel Timing OR Black else PixelRole_Pixel Timing"
  let ?body = "\<lambda>i m. bindE (setPixel m i ti (?p i)) (\<lambda>m. setPixel m ti i (?p i))"
  have step: "writes n (?body i) (stamp ({(i, 6)} \<union> {(6, i)}) ?V)" if "i \<in> set [0..n - 1]" for i
  proof (rule writes_seq_stamp)
    show "writes n (\<lambda>m. setPixel m i ti (?p i)) (stamp {(i, 6)} ?V)"
      unfolding ti_def using that assms by (intro writes_setPixel) (auto simp: timingPattern_def)
    show "writes n (\<lambda>m. setPixel m ti i (?p i)) (stamp {(6, i)} ?V)"
      unfolding ti_def using that assms by (intro writes_setPixel) (auto simp: timingPattern_def)
  qed
  have loop: "writes n (forM [0..n - 1] ?body) (stamp (\<Union>i\<in>set [0..n - 1]. {(i, 6)} \<union> {(6, i)}) ?V)"
    by (rule writes_forM_stamp) (rule step)
  have S: "(\<Union>i\<in>set [0..n - 1]. {(i, 6)} \<union> {(6, i)}) = timingSet n"
    using assms by (auto simp: timingSet_def)
  have "writes n (\<lambda>m. forM [0..n - 1] ?body m) (stamp (timingSet n) ?V)"
    using loop by (simp only: S)
  then show ?thesis
    by (rule writes_cong_len [rotated]) (simp add: timing_def Let_def)
qed

subsection \<open>The alignment loops return\<close>

lemma alignY_unfold:
  "alignY ap ast siz x y m =
     (if y + 5 < siz then
        (case alignStep siz x y m of
           Inl e \<Rightarrow> Some (Inl e)
         | Inr m' \<Rightarrow> alignY ap ast siz x (if y = 4 then ap else y + ast) m')
      else Some (Inr m))"
  by (subst alignY.simps) (simp add: alignStep_def excluded_def)

lemma alignY_steps_aux:
  "hi = siz - 6 \<Longrightarrow> 0 < d \<Longrightarrow> 4 < y \<Longrightarrow>
   alignY ap d siz x y m = Some (forM (steps d hi y) (alignStep siz x) m)"
proof (induction d hi y arbitrary: m rule: steps.induct)
  case (1 d hi y)
  show ?case
  proof (cases "y \<le> hi")
    case False
    then have "\<not> y + 5 < siz" using "1.prems" by simp
    then have "alignY ap d siz x y m = Some (Inr m)"
      by (subst alignY_unfold) simp
    moreover have "steps d hi y = []" using False by (simp add: steps.simps)
    ultimately show ?thesis by simp
  next
    case True
    then have lt: "y + 5 < siz" using "1.prems" by simp
    have st: "steps d hi y = y # steps d hi (y + d)"
      using True "1.prems" by (subst steps.simps) simp
    have IH: "alignY ap d siz x (y + d) m' = Some (forM (steps d hi (y + d)) (alignStep siz x) m')" for m'
      using "1.IH" [of m'] True "1.prems" by simp
    show ?thesis
      using lt "1.prems"(2,3) by (subst alignY_unfold) (simp add: st IH split: sum.split)
  qed
qed

lemma alignY_start:
  assumes "0 < ast" "4 < ap" "9 < siz"
  shows "alignY ap ast siz x 4 m = Some (forM (4 # steps ast (siz - 6) ap) (alignStep siz x) m)"
  using assms by (subst alignY_unfold) (simp add: alignY_steps_aux split: sum.split)

lemma alignX_unfold:
  assumes "0 < ast" "4 < ap" "9 < siz"
  shows "alignX ap ast siz x m =
     (if x + 5 < siz then
        (case alignRow (4 # steps ast (siz - 6) ap) siz x m of
           Inl e \<Rightarrow> Some (Inl e)
         | Inr m' \<Rightarrow> alignX ap ast siz (if x = 4 then ap else x + ast) m')
      else Some (Inr m))"
  by (subst alignX.simps) (simp add: alignY_start [OF assms] alignRow_def split: sum.split)

lemma alignX_steps_aux:
  "hi = siz - 6 \<Longrightarrow> 0 < d \<Longrightarrow> 4 < ap \<Longrightarrow> 9 < siz \<Longrightarrow> 4 < x \<Longrightarrow>
   alignX ap d siz x m = Some (forM (steps d hi x) (alignRow (4 # steps d (siz - 6) ap) siz) m)"
proof (induction d hi x arbitrary: m rule: steps.induct)
  case (1 d hi x)
  note unf = alignX_unfold [OF "1.prems"(2,3,4)]
  show ?case
  proof (cases "x \<le> hi")
    case False
    then have "\<not> x + 5 < siz" using "1.prems" by simp
    then have "alignX ap d siz x m = Some (Inr m)"
      by (subst unf) simp
    moreover have "steps d hi x = []" using False by (simp add: steps.simps)
    ultimately show ?thesis by simp
  next
    case True
    then have lt: "x + 5 < siz" using "1.prems" by simp
    have st: "steps d hi x = x # steps d hi (x + d)"
      using True "1.prems" by (subst steps.simps) simp
    have IH: "alignX ap d siz (x + d) m' =
        Some (forM (steps d hi (x + d)) (alignRow (4 # steps d (siz - 6) ap) siz) m')" for m'
      using "1.IH" [of m'] True "1.prems" by simp
    show ?thesis
      using lt "1.prems"(2,3,4,5) by (subst unf) (simp add: st IH split: sum.split)
  qed
qed

lemma alignX_start:
  assumes "0 < ast" "4 < ap" "9 < siz"
  shows "alignX ap ast siz 4 m =
     Some (forM (4 # steps ast (siz - 6) ap) (alignRow (4 # steps ast (siz - 6) ap) siz) m)"
  using assms
  by (subst alignX_unfold [OF assms]) (simp add: alignX_steps_aux split: sum.split)

subsection \<open>The version table and the geometry stage\<close>

lemma vtab_ok_all: "list_all (\<lambda>v. entry_ok (vtab ! nat v) (17 + v * 4)) [1..40]"
  by code_simp

lemma vtab_ok: "1 \<le> v \<Longrightarrow> v \<le> 40 \<Longrightarrow> entry_ok (vtab ! nat v) (17 + v * 4)"
  using vtab_ok_all by (simp add: list_all_iff)

lemma steps_bounds: "x \<in> set (steps d hi a) \<Longrightarrow> a \<le> x \<and> x \<le> hi"
proof (induction d hi a rule: steps.induct)
  case (1 d hi a)
  then show ?case
    by (subst (asm) (2) steps.simps) (auto split: if_splits)
qed

lemma steps_apart:
  "x \<in> set (steps d hi a) \<Longrightarrow> x' \<in> set (steps d hi a) \<Longrightarrow> x \<noteq> x' \<Longrightarrow> d \<le> \<bar>x - x'\<bar>"
proof (induction d hi a rule: steps.induct)
  case (1 d hi a)
  show ?case
  proof (cases "0 < d \<and> a \<le> hi")
    case False
    then have "steps d hi a = []" by (simp add: steps.simps)
    with "1.prems" show ?thesis by simp
  next
    case True
    then have st: "steps d hi a = a # steps d hi (a + d)" by (subst steps.simps) simp
    from steps_bounds have b: "\<And>z. z \<in> set (steps d hi (a + d)) \<Longrightarrow> a + d \<le> z" by blast
    from "1.prems" st "1.IH" True b show ?thesis by fastforce
  qed
qed

lemma fold_fold_product:
  "fold (\<lambda>x. fold (f x) ys) xs = fold (\<lambda>(x, y). f x y) (List.product xs ys)"
  by (induction xs) (simp_all add: fold_map comp_def)

lemma fold_if_filter:
  "fold (\<lambda>(x, y). if P x y then (\<lambda>g. g) else T x y) bs =
   fold (\<lambda>(x, y). T x y) (filter (\<lambda>(x, y). \<not> P x y) bs)"
  by (induction bs) (auto simp: fun_eq_iff)

lemma grid_rep_replicate: "0 \<le> n \<Longrightarrow> grid_rep n (replicate (nat n) (replicate (nat n) 0)) (\<lambda>_. 0)"
  by (simp add: grid_rep_def)

lemma writes_alignStep:
  assumes "0 \<le> x" "x + 5 \<le> n" "0 \<le> y" "y + 5 \<le> n"
  shows "writes n (alignStep siz x y)
           (if excluded siz x y then (\<lambda>g. g) else stamp (box5 x y) (alignPattern x y))"
proof -
  have "writes n (\<lambda>m. if excluded siz x y then Inr m else alignBox m x y)
           (if excluded siz x y then (\<lambda>g. g) else stamp (box5 x y) (alignPattern x y))"
    using writes_alignBox [OF assms] writes_skip [of n] by (intro writes_if) simp_all
  then show ?thesis
    by (rule writes_cong_len [rotated]) (simp add: alignStep_def)
qed

lemma writes_alignRow:
  assumes "\<forall>y\<in>set ys. 0 \<le> y \<and> y + 5 \<le> n" "0 \<le> x" "x + 5 \<le> n"
  shows "writes n (alignRow ys siz x)
           (fold (\<lambda>y. if excluded siz x y then (\<lambda>g. g) else stamp (box5 x y) (alignPattern x y)) ys)"
proof -
  have "writes n (forM ys (alignStep siz x))
           (fold (\<lambda>y. if excluded siz x y then (\<lambda>g. g) else stamp (box5 x y) (alignPattern x y)) ys)"
    using assms by (intro writes_forM writes_alignStep) auto
  then show ?thesis
    by (rule writes_cong_len [rotated]) (simp add: alignRow_def)
qed

lemma writes_alignRows:
  assumes "\<forall>y\<in>set ys. 0 \<le> y \<and> y + 5 \<le> n" "\<forall>x\<in>set xs. 0 \<le> x \<and> x + 5 \<le> n"
  shows "writes n (forM xs (alignRow ys siz))
           (fold (\<lambda>(x, y). stamp (box5 x y) (alignPattern x y))
              (filter (\<lambda>(x, y). \<not> excluded siz x y) (List.product xs ys)))"
proof -
  let ?T = "\<lambda>x y. if excluded siz x y then (\<lambda>g. g) else stamp (box5 x y) (alignPattern x y)"
  have "writes n (forM xs (alignRow ys siz)) (fold (\<lambda>x. fold (?T x) ys) xs)"
    using assms by (intro writes_forM writes_alignRow) auto
  then show ?thesis
    by (simp only: fold_fold_product fold_if_filter)
qed

lemma axisWalk_range:
  assumes "entry_ok info n" "x \<in> set (axisWalk info n)"
  shows "x = 4 \<or> 16 \<le> x \<and> x + 9 \<le> n"
proof -
  from assms(1) have ok: "16 \<le> apos info"
    "steps (astride info) (n - 6) (apos info) = steps (astride info) (n - 9) (apos info)"
    by (simp_all add: entry_ok_def)
  from assms(2) have "x = 4 \<or> x \<in> set (steps (astride info) (n - 9) (apos info))"
    by (simp add: axisWalk_def ok(2))
  then show ?thesis using steps_bounds ok(1) by fastforce
qed

lemma vplan_geometry:
  assumes "1 \<le> v" "v \<le> 40" and n_def: "n = 17 + v * 4" and info_def: "info = vtab ! nat v"
  shows "\<exists>m. vplan v = Some (Inr \<lparr>Version = v, Level = 0, Mask = 0, DataBytes = 0,
                CheckBytes = 0, Blocks = 0, Pixel = m\<rparr>) \<and> grid_rep n m (geometry info n)"
proof -
  have n: "21 \<le> n" using assms by simp
  define m0 where "m0 = replicate (nat n) (replicate (nat n) (0 :: Pixel))"
  have r0: "grid_rep n m0 (\<lambda>_. 0)" unfolding m0_def using n by (intro grid_rep_replicate) simp
  have w1: "writes n timing (stamp (timingSet n) timingPattern)"
    using n by (intro writes_timing) simp
  have w2: "writes n (\<lambda>m. posBox m 0 0) (stamp (posRegion n 0 0) (posPattern 0 0))"
    using n by (intro writes_posBox) simp_all
  have w3: "writes n (\<lambda>m. posBox m (n - 7) 0) (stamp (posRegion n (n - 7) 0) (posPattern (n - 7) 0))"
    using n by (intro writes_posBox) simp_all
  have w4: "writes n (\<lambda>m. posBox m 0 (n - 7)) (stamp (posRegion n 0 (n - 7)) (posPattern 0 (n - 7)))"
    using n by (intro writes_posBox) simp_all
  have "writes n (\<lambda>m. bindE (timing m) (\<lambda>m. bindE (posBox m 0 0) (\<lambda>m. bindE (posBox m (n - 7) 0)
          (\<lambda>m. posBox m 0 (n - 7)))))
        (\<lambda>g. finders n (stamp (timingSet n) timingPattern g))"
    unfolding finders_def
    by (rule writes_bindE [OF w1 writes_bindE [OF w2 writes_bindE [OF w3 w4]]])
  from this r0 obtain m1 where m1:
    "bindE (timing m0) (\<lambda>m. bindE (posBox m 0 0) (\<lambda>m. bindE (posBox m (n - 7) 0)
          (\<lambda>m. posBox m 0 (n - 7)))) = Inr m1"
    "grid_rep n m1 (finders n (stamp (timingSet n) timingPattern (\<lambda>_. 0)))"
    by (rule writesD)
  have eok: "entry_ok info n" using vtab_ok [OF assms(1,2)] by (simp only: n_def info_def)
  then have ok: "16 \<le> apos info" "16 \<le> astride info"
    by (simp_all add: entry_ok_def)
  have rng: "\<forall>x\<in>set (axisWalk info n). 0 \<le> x \<and> x + 5 \<le> n"
  proof
    fix x assume "x \<in> set (axisWalk info n)"
    from axisWalk_range [OF eok this] n show "0 \<le> x \<and> x + 5 \<le> n" by arith
  qed
  have al: "alignX (apos info) (astride info) n 4 m1 =
      Some (forM (axisWalk info n) (alignRow (axisWalk info n) n) m1)"
    unfolding axisWalk_def using ok n by (intro alignX_start) simp_all
  have "writes n (forM (axisWalk info n) (alignRow (axisWalk info n) n))
          (fold (\<lambda>(x, y). stamp (box5 x y) (alignPattern x y)) (stamped info n))"
    unfolding stamped_def by (rule writes_alignRows [OF rng rng])
  from this m1(2) obtain m2 where m2:
    "forM (axisWalk info n) (alignRow (axisWalk info n) n) m1 = Inr m2"
    "grid_rep n m2 (geometry info n)"
    unfolding geometry_def by (rule writesD)
  have "vplan v = Some (Inr \<lparr>Version = v, Level = 0, Mask = 0, DataBytes = 0,
                CheckBytes = 0, Blocks = 0, Pixel = m2\<rparr>)"
    using assms(1,2) m1(1) al m2(1)
    by (simp add: vplan_def Let_def n_def [symmetric] m0_def [symmetric] info_def [symmetric])
  with m2(2) show ?thesis by blast
qed

lemmas px_defs = Role_def PixelRole_Pixel_def Position_def Alignment_def Timing_def Format_def
  Data_def Check_def Black_def Invert_def

subsection \<open>Roles of the patterns\<close>

lemma Role_zero: "Role 0 = 0"
  by (simp add: Role_def)

lemma Role_timingPattern: "Role (timingPattern p) = Timing"
  by (cases p) (simp add: timingPattern_def px_defs)

lemma Role_posPattern: "Role (posPattern x y p) = Position"
  by (cases p) (simp add: posPattern_def px_defs)

lemma Role_alignPattern: "Role (alignPattern x y p) = Alignment"
  by (cases p) (simp add: alignPattern_def px_defs)

lemma in_0_14: "0 \<le> i \<Longrightarrow> i \<le> 14 \<Longrightarrow> i \<in> {0,1,2,3,4,5,6,7,8,9,10,11,12,13,14::int}"
  by simp arith

lemma Role_formatPixel:
  assumes "0 \<le> i" "i \<le> 14"
  shows "Role (formatPixel fb i) = Format"
  using in_0_14 [OF assms]
  by (auto simp: formatPixel_def Let_def OffsetPixel_def px_defs)

lemma Offset_formatPixel:
  assumes "0 \<le> i" "i \<le> 14"
  shows "Offset (formatPixel fb i) = i"
  using in_0_14 [OF assms]
  by (auto simp: formatPixel_def Let_def OffsetPixel_def Offset_def px_defs)

subsection \<open>The format and mask stages\<close>

lemma writes_fplan_step:
  assumes "21 \<le> n" "i \<in> set [0..14]"
  shows "writes n (\<lambda>g. bindE (if i < 6 then setPixel g i 8 pix
                        else if i < 8 then setPixel g (i + 1) 8 pix
                        else if i < 9 then setPixel g 8 7 pix
                        else setPixel g 8 (14 - i) pix)
                   (\<lambda>g. if i < 8 then setPixel g 8 (n - 1 - i) pix
                         else setPixel g (n - 1 - (14 - i)) 8 pix))
           (stamp {fmtA i, fmtB n i} (\<lambda>_. pix))"
proof -
  have a: "writes n (\<lambda>g. setPixel g (fst (fmtA i)) (snd (fmtA i)) pix) (stamp {fmtA i} (\<lambda>_. pix))"
    using assms writes_setPixel [of "fst (fmtA i)" n "snd (fmtA i)" "\<lambda>_. pix" pix]
    by (auto simp: fmtA_def)
  have b: "writes n (\<lambda>g. setPixel g (fst (fmtB n i)) (snd (fmtB n i)) pix) (stamp {fmtB n i} (\<lambda>_. pix))"
    using assms writes_setPixel [of "fst (fmtB n i)" n "snd (fmtB n i)" "\<lambda>_. pix" pix]
    by (auto simp: fmtB_def)
  have "writes n (\<lambda>g. bindE (setPixel g (fst (fmtA i)) (snd (fmtA i)) pix)
                   (\<lambda>g. setPixel g (fst (fmtB n i)) (snd (fmtB n i)) pix))
           (stamp ({fmtA i} \<union> {fmtB n i}) (\<lambda>_. pix))"
    by (rule writes_seq_stamp [OF a b])
  moreover have "{fmtA i} \<union> {fmtB n i} = {fmtA i, fmtB n i}" by auto
  moreover have "(\<lambda>g. bindE (if i < 6 then setPixel g i 8 pix
                        else if i < 8 then setPixel g (i + 1) 8 pix
                        else if i < 9 then setPixel g 8 7 pix
                        else setPixel g 8 (14 - i) pix)
                   (\<lambda>g. if i < 8 then setPixel g 8 (n - 1 - i) pix
                         else setPixel g (n - 1 - (14 - i)) 8 pix)) =
     (\<lambda>g. bindE (setPixel g (fst (fmtA i)) (snd (fmtA i)) pix)
                   (\<lambda>g. setPixel g (fst (fmtB n i)) (snd (fmtB n i)) pix))"
    by (simp add: fmtA_def fmtB_def)
  ultimately show ?thesis by simp
qed

lemma fplan_rep:
  assumes "21 \<le> n" "grid_rep n (Pixel p) g"
  shows "\<exists>m. fplan l k p = Inr (p\<lparr>Pixel := m\<rparr>) \<and> grid_rep n m (formatT (formatBits l k) n g)"
proof -
  have len: "int (length (Pixel p)) = n" using assms(2) by (rule grid_rep_length)
  let ?fb = "formatBits l k"
  have "writes n (forM [0..14] (\<lambda>i g.
                 bindE (if i < 6 then setPixel g i 8 (formatPixel ?fb i)
                        else if i < 8 then setPixel g (i + 1) 8 (formatPixel ?fb i)
                        else if i < 9 then setPixel g 8 7 (formatPixel ?fb i)
                        else setPixel g 8 (14 - i) (formatPixel ?fb i))
                   (\<lambda>g. if i < 8 then setPixel g 8 (n - 1 - i) (formatPixel ?fb i)
                         else setPixel g (n - 1 - (14 - i)) 8 (formatPixel ?fb i))))
          (formatT ?fb n)"
    unfolding formatT_def
    by (rule writes_forM) (rule writes_fplan_step [OF assms(1)])
  from this assms(2) obtain m where m: "forM [0..14] (\<lambda>i g.
                 bindE (if i < 6 then setPixel g i 8 (formatPixel ?fb i)
                        else if i < 8 then setPixel g (i + 1) 8 (formatPixel ?fb i)
                        else if i < 9 then setPixel g 8 7 (formatPixel ?fb i)
                        else setPixel g 8 (14 - i) (formatPixel ?fb i))
                   (\<lambda>g. if i < 8 then setPixel g 8 (n - 1 - i) (formatPixel ?fb i)
                         else setPixel g (n - 1 - (14 - i)) 8 (formatPixel ?fb i))) (Pixel p) = Inr m"
      "grid_rep n m (formatT ?fb n g)"
    by (rule writesD)
  have "fplan l k p = Inr (p\<lparr>Pixel := m\<rparr>)"
    using m(1) by (simp add: fplan_def Let_def len bindE_def)
  with m(2) show ?thesis by blast
qed

lemma mplan_rep:
  assumes "0 \<le> k" "k < 8" "grid_rep n (Pixel p) g"
  shows "\<exists>m. mplan k p = Inr (p\<lparr>Mask := k, Pixel := m\<rparr>) \<and> grid_rep n m (maskT (mfunc ! nat k) g)"
proof -
  let ?f = "mfunc ! nat k"
  let ?m = "map (\<lambda>(y, row).
               map (\<lambda>(x, pix).
                 if (Role pix = Data \<or> Role pix = Check) \<and> ?f (int x) (int y)
                 then pix OR Invert else pix) (enumerate 0 row))
               (enumerate 0 (Pixel p))"
  have "mplan k p = Inr (p\<lparr>Mask := k, Pixel := ?m\<rparr>)"
    using assms(1,2) by (simp add: mplan_def mfunc_def Let_def)
  moreover have "grid_rep n ?m (maskT ?f g)"
    using assms(3) by (auto simp: grid_rep_def maskT_def nth_enumerate_eq)
  ultimately show ?thesis by blast
qed

lemma NewPlan_rep:
  assumes "1 \<le> v" "v \<le> 40" "0 \<le> k" "k < 8"
  shows "\<exists>m. NewPlan v l k = Some (Inr \<lparr>Version = v, Level = l, Mask = k, DataBytes = 0,
                CheckBytes = 0, Blocks = 0, Pixel = m\<rparr>) \<and> grid_rep (17 + v * 4) m (finalGrid v l k)"
proof -
  define n where "n = 17 + v * 4"
  define info where "info = vtab ! nat v"
  have n: "21 \<le> n" using assms by (simp add: n_def)
  from vplan_geometry [OF assms(1,2) n_def info_def] obtain m1 where m1:
    "vplan v = Some (Inr \<lparr>Version = v, Level = 0, Mask = 0, DataBytes = 0,
                CheckBytes = 0, Blocks = 0, Pixel = m1\<rparr>)" "grid_rep n m1 (geometry info n)"
    by blast
  let ?p1 = "\<lparr>Version = v, Level = 0, Mask = 0, DataBytes = 0,
                CheckBytes = 0, Blocks = 0, Pixel = m1\<rparr>"
  from m1(2) have "grid_rep n (Pixel ?p1) (geometry info n)" by simp
  from fplan_rep [OF n this, of l k] obtain m2 where m2:
    "fplan l k ?p1 = Inr (?p1\<lparr>Pixel := m2\<rparr>)"
    "grid_rep n m2 (formatT (formatBits l k) n (geometry info n))"
    by blast
  let ?p2 = "?p1\<lparr>Pixel := m2, Level := l\<rparr>"
  from m2(2) have "grid_rep n (Pixel ?p2) (formatT (formatBits l k) n (geometry info n))" by simp
  from mplan_rep [OF assms(3,4) this] obtain m3 where m3:
    "mplan k ?p2 = Inr (?p2\<lparr>Mask := k, Pixel := m3\<rparr>)"
    "grid_rep n m3 (maskT (mfunc ! nat k) (formatT (formatBits l k) n (geometry info n)))"
    by blast
  have "NewPlan v l k = Some (Inr \<lparr>Version = v, Level = l, Mask = k, DataBytes = 0,
                CheckBytes = 0, Blocks = 0, Pixel = m3\<rparr>)"
    using m1(1) m2(1) m3(1) by (simp add: NewPlan_def bindE_def lplan_def)
  with m3(2) show ?thesis unfolding finalGrid_def n_def info_def by blast
qed

subsection \<open>Looking up a cell\<close>

lemma stamp_apply: "stamp S V g p = (if p \<in> S then V p else g p)"
  by (simp add: stamp_def)

lemma fold_stamp_snoc:
  "fold (\<lambda>b. stamp (S b) (V b)) (bs @ [b0]) g p =
     (if p \<in> S b0 then V b0 p else fold (\<lambda>b. stamp (S b) (V b)) bs g p)"
  by (simp only: fold_append fold_simps comp_apply id_apply stamp_apply)

lemma fold_stamp_out:
  assumes "\<And>b. b \<in> set bs \<Longrightarrow> p \<notin> S b"
  shows "fold (\<lambda>b. stamp (S b) (V b)) bs g p = g p"
  using assms
proof (induction bs rule: rev_induct)
  case Nil
  show ?case by simp
next
  case (snoc b0 bs)
  have "p \<notin> S b0" by (rule snoc.prems) simp
  moreover have "fold (\<lambda>b. stamp (S b) (V b)) bs g p = g p"
    by (rule snoc.IH) (simp add: snoc.prems)
  ultimately show ?case by (simp only: fold_stamp_snoc if_False)
qed

lemma fold_stamp_in:
  assumes "b \<in> set bs" "p \<in> S b" "\<And>b'. b' \<in> set bs \<Longrightarrow> p \<in> S b' \<Longrightarrow> V b' p = V b p"
  shows "fold (\<lambda>b. stamp (S b) (V b)) bs g p = V b p"
  using assms
proof (induction bs rule: rev_induct)
  case Nil
  then show ?case by simp
next
  case (snoc b0 bs)
  show ?case
  proof (cases "p \<in> S b0")
    case True
    have "V b0 p = V b p" by (rule snoc.prems(3)) (simp_all add: True)
    then show ?thesis using True by (simp only: fold_stamp_snoc if_True)
  next
    case False
    then have "b \<in> set bs" using snoc.prems(1,2) by auto
    then have "fold (\<lambda>b. stamp (S b) (V b)) bs g p = V b p"
      using snoc.prems(2) by (rule snoc.IH) (simp add: snoc.prems(3))
    then show ?thesis using False by (simp only: fold_stamp_snoc if_False)
  qed
qed

lemma fold_stamp_pred:
  assumes "P (g p)" "\<And>b. b \<in> set bs \<Longrightarrow> P (V b p)"
  shows "P (fold (\<lambda>b. stamp (S b) (V b)) bs g p)"
  using assms
proof (induction bs rule: rev_induct)
  case Nil
  then show ?case by simp
next
  case (snoc b0 bs)
  have 1: "P (V b0 p)" by (rule snoc.prems(2)) simp
  have 2: "P (fold (\<lambda>b. stamp (S b) (V b)) bs g p)"
    using snoc.prems(1) by (rule snoc.IH) (simp add: snoc.prems(2))
  show ?case
  proof (cases "p \<in> S b0")
    case True
    with 1 show ?thesis by (simp only: fold_stamp_snoc if_True)
  next
    case False
    with 2 show ?thesis by (simp only: fold_stamp_snoc if_False)
  qed
qed

lemma fmtA_bounds:
  assumes "0 \<le> i" "i \<le> 14"
  shows "0 \<le> fst (fmtA i) \<and> fst (fmtA i) \<le> 8 \<and> 0 \<le> snd (fmtA i) \<and> snd (fmtA i) \<le> 8"
  using assms by (simp add: fmtA_def)

lemma fmtB_bounds:
  assumes "0 \<le> i" "i \<le> 14"
  shows "fst (fmtB n i) = 8 \<and> n - 8 \<le> snd (fmtB n i) \<and> snd (fmtB n i) \<le> n - 1 \<or>
         snd (fmtB n i) = 8 \<and> n - 7 \<le> fst (fmtB n i) \<and> fst (fmtB n i) \<le> n - 1"
  using assms by (simp add: fmtB_def)

lemma fmtA_index: "0 \<le> i \<Longrightarrow> i \<le> 14 \<Longrightarrow> fmtA_index (fmtA i) = i"
  by (simp add: fmtA_index_def fmtA_def)

lemma fmtB_index: "21 \<le> n \<Longrightarrow> 0 \<le> i \<Longrightarrow> i \<le> 14 \<Longrightarrow> fmtB_index n (fmtB n i) = i"
  by (simp add: fmtB_index_def fmtB_def)

lemma fmt_distinct:
  assumes "21 \<le> n" "0 \<le> i" "i \<le> 14" "0 \<le> j" "j \<le> 14"
  shows "fmtA i \<noteq> fmtB n j" "fmtA i = fmtA j \<longleftrightarrow> i = j" "fmtB n i = fmtB n j \<longleftrightarrow> i = j"
proof -
  show "fmtA i \<noteq> fmtB n j"
  proof
    assume e: "fmtA i = fmtB n j"
    from fmtA_bounds [OF assms(2,3)] fmtB_bounds [OF assms(4,5), of n] assms(1)
    show False unfolding e by arith
  qed
  show "fmtA i = fmtA j \<longleftrightarrow> i = j"
    using fmtA_index [OF assms(2,3)] fmtA_index [OF assms(4,5)] by metis
  show "fmtB n i = fmtB n j \<longleftrightarrow> i = j"
    using fmtB_index [OF assms(1,2,3)] fmtB_index [OF assms(1,4,5)] by metis
qed

lemma formatT_out: "p \<notin> fmtCells n \<Longrightarrow> formatT fb n g p = g p"
  unfolding formatT_def by (rule fold_stamp_out) (auto simp: fmtCells_def)

lemma formatT_in:
  assumes "21 \<le> n" "0 \<le> i" "i \<le> 14" "p = fmtA i \<or> p = fmtB n i"
  shows "formatT fb n g p = formatPixel fb i"
proof -
  have "fold (\<lambda>i. stamp {fmtA i, fmtB n i} (\<lambda>_. formatPixel fb i)) [0..14] g p = (\<lambda>_. formatPixel fb i) p"
  proof (rule fold_stamp_in [where b = i])
    show "i \<in> set [0..14]" using assms by simp
    show "p \<in> {fmtA i, fmtB n i}" using assms by auto
    fix j assume "j \<in> set [0..14]" "p \<in> {fmtA j, fmtB n j}"
    then have "j = i" using assms fmt_distinct [of n i j] fmt_distinct [of n j i] by auto
    then show "formatPixel fb j = formatPixel fb i" by simp
  qed
  then show ?thesis by (simp add: formatT_def)
qed

lemma geometry_fold:
  "geometry info n = fold (\<lambda>b. stamp (box5 (fst b) (snd b)) (alignPattern (fst b) (snd b))) (stamped info n) (background n)"
  by (simp add: geometry_def background_def case_prod_unfold)

lemma geometry_out:
  assumes "\<And>x y. (x, y) \<in> set (stamped info n) \<Longrightarrow> p \<notin> box5 x y"
  shows "geometry info n p = background n p"
  unfolding geometry_fold by (rule fold_stamp_out) (use assms in auto)

lemma stamped_cands:
  assumes "(x, y) \<in> set (stamped info n)"
  shows "x \<in> set (axisWalk info n)" "y \<in> set (axisWalk info n)" "\<not> excluded n x y"
  using assms by (auto simp: stamped_def)

lemma axisWalk_apart:
  assumes "entry_ok info n" "x \<in> set (axisWalk info n)" "x' \<in> set (axisWalk info n)" "x \<noteq> x'"
  shows "12 \<le> \<bar>x - x'\<bar>"
proof -
  let ?st = "steps (astride info) (n - 6) (apos info)"
  from assms(1) have ok: "16 \<le> apos info" "16 \<le> astride info" by (simp_all add: entry_ok_def)
  have b: "16 \<le> z" if "z \<in> set ?st" for z using steps_bounds [OF that] ok by simp
  from assms(2,3) have "x = 4 \<or> x \<in> set ?st" "x' = 4 \<or> x' \<in> set ?st" by (simp_all add: axisWalk_def)
  then show ?thesis
    using assms(4) b [of x] b [of x'] steps_apart [of x "astride info" "n - 6" "apos info" x'] ok
    by (elim disjE) auto
qed

lemma boxes_disjoint:
  assumes "entry_ok info n" "(x, y) \<in> set (stamped info n)" "(x', y') \<in> set (stamped info n)"
    "p \<in> box5 x y" "p \<in> box5 x' y'"
  shows "x' = x \<and> y' = y"
proof -
  obtain r c where p: "p = (r, c)" by (cases p)
  have "\<bar>x - x'\<bar> < 12" "\<bar>y - y'\<bar> < 12" using assms(4,5) by (auto simp: box5_def p)
  then show ?thesis
    using axisWalk_apart [OF assms(1), of x x'] axisWalk_apart [OF assms(1), of y y']
      stamped_cands [OF assms(2)] stamped_cands [OF assms(3)] by fastforce
qed

lemma geometry_in:
  assumes "entry_ok info n" "(x, y) \<in> set (stamped info n)" "p \<in> box5 x y"
  shows "geometry info n p = alignPattern x y p"
proof -
  have "fold (\<lambda>b. stamp (box5 (fst b) (snd b)) (alignPattern (fst b) (snd b))) (stamped info n) (background n) p
        = alignPattern (fst (x, y)) (snd (x, y)) p"
  proof (rule fold_stamp_in [where b = "(x, y)"])
    show "(x, y) \<in> set (stamped info n)" by fact
    show "p \<in> box5 (fst (x, y)) (snd (x, y))" using assms(3) by simp
    fix b' assume b': "b' \<in> set (stamped info n)" "p \<in> box5 (fst b') (snd b')"
    obtain x' y' where "b' = (x', y')" by (cases b')
    with b' boxes_disjoint [OF assms(1,2) _ assms(3), of x' y'] have "b' = (x, y)" by simp
    then show "alignPattern (fst b') (snd b') p = alignPattern (fst (x, y)) (snd (x, y)) p" by simp
  qed
  then show ?thesis by (simp add: geometry_fold)
qed

lemma background_cases:
  "background n p =
     (if p \<in> posRegion n 0 (n - 7) then posPattern 0 (n - 7) p
      else if p \<in> posRegion n (n - 7) 0 then posPattern (n - 7) 0 p
      else if p \<in> posRegion n 0 0 then posPattern 0 0 p
      else if p \<in> timingSet n then timingPattern p else 0)"
  by (simp add: background_def finders_def stamp_def)

lemma Role_background: "Role (background n p) \<in> {0, Position, Timing}"
  by (simp add: background_cases Role_posPattern Role_timingPattern Role_zero)

lemma Role_geometry: "Role (geometry info n p) \<in> {0, Position, Alignment, Timing}"
  unfolding geometry_fold
  by (rule fold_stamp_pred) (use Role_background [of n p] in \<open>auto simp: Role_alignPattern\<close>)

lemma Role_formatT:
  assumes "Role (g p) \<in> {0, Position, Alignment, Timing}"
  shows "Role (formatT fb n g p) \<in> {0, Position, Alignment, Timing, Format}"
  unfolding formatT_def
  by (rule fold_stamp_pred) (use assms in \<open>auto simp: Role_formatPixel\<close>)

lemma finalGrid_unmasked:
  "finalGrid v l k = formatT (formatBits l k) (17 + v * 4) (geometry (vtab ! nat v) (17 + v * 4))"
proof (rule ext)
  fix p :: "int \<times> int"
  obtain r c where p: "p = (r, c)" by (cases p)
  let ?g = "formatT (formatBits l k) (17 + v * 4) (geometry (vtab ! nat v) (17 + v * 4))"
  have "Role (?g p) \<in> {0, Position, Alignment, Timing, Format}"
    by (rule Role_formatT) (rule Role_geometry)
  then have "Role (?g p) \<noteq> Data" "Role (?g p) \<noteq> Check"
    by (auto simp: px_defs)
  then show "finalGrid v l k p = ?g p"
    by (simp add: finalGrid_def maskT_def p)
qed

lemma grid_rep_rows:
  assumes "grid_rep n m g"
  shows "int (length m) = n" "\<forall>row\<in>set m. int (length row) = n"
  using assms by (auto simp: grid_rep_def in_set_conv_nth)

lemma NewPlan_mask_panic:
  assumes "1 \<le> v" "v \<le> 40" "k < 0 \<or> 7 < k"
  shows "NewPlan v l k = Some (Inl IndexOutOfRange)"
proof -
  define n where "n = 17 + v * 4"
  define info where "info = vtab ! nat v"
  have n: "21 \<le> n" using assms by (simp add: n_def)
  from vplan_geometry [OF assms(1,2) n_def info_def] obtain m1 where m1:
    "vplan v = Some (Inr \<lparr>Version = v, Level = 0, Mask = 0, DataBytes = 0,
                CheckBytes = 0, Blocks = 0, Pixel = m1\<rparr>)" "grid_rep n m1 (geometry info n)"
    by blast
  let ?p1 = "\<lparr>Version = v, Level = 0, Mask = 0, DataBytes = 0,
                CheckBytes = 0, Blocks = 0, Pixel = m1\<rparr>"
  from m1(2) have "grid_rep n (Pixel ?p1) (geometry info n)" by simp
  from fplan_rep [OF n this, of l k] obtain m2 where m2:
    "fplan l k ?p1 = Inr (?p1\<lparr>Pixel := m2\<rparr>)"
    by blast
  have "mplan k p = Inl IndexOutOfRange" for p
    using assms(3) by (auto simp: mplan_def mfunc_def)
  then show ?thesis
    using m1(1) m2 by (simp add: NewPlan_def bindE_def lplan_def)
qed

section \<open>Properties of the builder\<close>

subsection \<open>Grid size\<close>

text \<open>
  C2: for every version \<open>v\<close> in 1..40, any level and any mask id in 0..7, \<open>NewPlan\<close> returns
  a plan whose grid has \<open>4 * v + 17\<close> rows, each of \<open>4 * v + 17\<close> cells.
\<close>

theorem NewPlan_square:
  assumes "1 \<le> v" "v \<le> 40" "0 \<le> k" "k \<le> 7"
  shows "\<exists>p. NewPlan v l k = Some (Inr p) \<and> int (length (Pixel p)) = 4 * v + 17 \<and>
             (\<forall>row\<in>set (Pixel p). int (length row) = 4 * v + 17)"
proof -
  from assms have "k < 8" by simp
  from NewPlan_rep [OF assms(1,2,3) this, of l] obtain m where
    m: "NewPlan v l k = Some (Inr \<lparr>Version = v, Level = l, Mask = k, DataBytes = 0,
                CheckBytes = 0, Blocks = 0, Pixel = m\<rparr>)" "grid_rep (17 + v * 4) m (finalGrid v l k)"
    by blast
  from grid_rep_rows [OF m(2)] m(1) show ?thesis by (simp add: add.commute mult.commute)
qed

theorem NewPlan_square_witness:
  "\<exists>p. NewPlan 1 L 0 = Some (Inr p) \<and> int (length (Pixel p)) = 21 \<and>
       (\<forall>row\<in>set (Pixel p). int (length row) = 21)"
  using NewPlan_square [of 1 0 L] by simp

subsection \<open>Invalid versions\<close>

text \<open>
  C3: a version below 1 or above 40 makes \<open>NewPlan\<close> return the \<open>InvalidVersion\<close> error,
  which carries no plan; and whenever \<open>NewPlan\<close> returns an \<open>InvalidVersion\<close> error the
  version was out of range, so the version check is the only source of the typed error.
\<close>

theorem NewPlan_invalid_version:
  "(v < 1 \<or> 40 < v \<longrightarrow> NewPlan v l k = Some (Inl (InvalidVersion v))) \<and>
   (NewPlan v l k = Some (Inl (InvalidVersion e)) \<longrightarrow> v < 1 \<or> 40 < v)"
proof (intro conjI impI)
  assume "v < 1 \<or> 40 < v"
  then show "NewPlan v l k = Some (Inl (InvalidVersion v))"
    by (auto simp: NewPlan_def vplan_def)
next
  assume e: "NewPlan v l k = Some (Inl (InvalidVersion e))"
  show "v < 1 \<or> 40 < v"
  proof (rule ccontr)
    assume "\<not> (v < 1 \<or> 40 < v)"
    then have v: "1 \<le> v" "v \<le> 40" by simp_all
    show False
    proof (cases "0 \<le> k \<and> k < 8")
      case True
      with NewPlan_rep [OF v, of k l] e show False by auto
    next
      case False
      then have "k < 0 \<or> 7 < k" by arith
      from NewPlan_mask_panic [OF v this, of l] e show False by simp
    qed
  qed
qed

theorem NewPlan_invalid_version_witness:
  "((0::int) < 1 \<or> 40 < (0::int)) \<and> NewPlan 0 L 0 = Some (Inl (InvalidVersion 0))"
  using NewPlan_invalid_version [of 0 L 0 0] by simp

subsection \<open>Mask ids out of range\<close>

text \<open>
  C10: with a valid version and a mask id outside 0..7 the builder does not return the typed
  error: the lookup \<^verbatim>\<open>mfunc[m]\<close> is out of bounds and construction ends in the run-time
  fault.  The lookup is in bounds exactly for the mask ids 0..7, and for these \<open>mplan\<close>
  succeeds on every plan.
\<close>

theorem mask_out_of_range:
  "(1 \<le> v \<and> v \<le> 40 \<and> (k < 0 \<or> 7 < k) \<longrightarrow> NewPlan v l k = Some (Inl IndexOutOfRange)) \<and>
   ((0 \<le> k \<and> k < int (length mfunc)) = (0 \<le> k \<and> k \<le> 7)) \<and>
   (0 \<le> k \<and> k \<le> 7 \<longrightarrow> (\<exists>p'. mplan k p = Inr p'))"
proof (intro conjI impI)
  assume "1 \<le> v \<and> v \<le> 40 \<and> (k < 0 \<or> 7 < k)"
  then show "NewPlan v l k = Some (Inl IndexOutOfRange)"
    using NewPlan_mask_panic [of v k l] by simp
next
  show "(0 \<le> k \<and> k < int (length mfunc)) = (0 \<le> k \<and> k \<le> 7)"
    by (auto simp: mfunc_def)
next
  assume "0 \<le> k \<and> k \<le> 7"
  then show "\<exists>p'. mplan k p = Inr p'"
    by (simp add: mplan_def mfunc_def Let_def)
qed

theorem mask_out_of_range_witness:
  "NewPlan 1 L 8 = Some (Inl IndexOutOfRange) \<and>
   (\<exists>p'. mplan 0 \<lparr>Version = 1, Level = 0, Mask = 0, DataBytes = 0, CheckBytes = 0, Blocks = 0,
                   Pixel = [[0]]\<rparr> = Inr p')"
  using mask_out_of_range [of 1 8 L] mask_out_of_range [of 1 0 L]
  by simp

subsection \<open>Format round trip\<close>

lemma upt15: "[0..<15] = [0,1,2,3,4,5,6,7,8,9,10,11,12,13,14]"
  by code_simp

lemma rev1015: "rev [10..<15] = [14,13,12,11,10]"
  by code_simp

lemma bchrem_unfold:
  "bchrem w =
    (let st = (\<lambda>i rem. if rem AND push_bit i 1 \<noteq> 0 then rem XOR push_bit (i - 10) formatPoly else rem)
     in st 10 (st 11 (st 12 (st 13 (st 14 w)))))"
  by (simp add: bchrem_def rev1015 Let_def)

lemma formatBits_table:
  "formatBits 0 0 = 9174" "formatBits 0 1 = 9953" "formatBits 0 2 = 10680"
  "formatBits 0 3 = 11407" "formatBits 0 4 = 12861" "formatBits 0 5 = 14090"
  "formatBits 0 6 = 14419" "formatBits 0 7 = 15716" "formatBits 1 0 = 0"
  "formatBits 1 1 = 1335" "formatBits 1 2 = 2670" "formatBits 1 3 = 3929"
  "formatBits 1 4 = 4587" "formatBits 1 5 = 5340" "formatBits 1 6 = 7045"
  "formatBits 1 7 = 7858" "formatBits 2 0 = 24909" "formatBits 2 1 = 25722"
  "formatBits 2 2 = 27427" "formatBits 2 3 = 28180" "formatBits 2 4 = 28838"
  "formatBits 2 5 = 30097" "formatBits 2 6 = 31432" "formatBits 2 7 = 32767"
  "formatBits 3 0 = 17051" "formatBits 3 1 = 18348" "formatBits 3 2 = 18677"
  "formatBits 3 3 = 19906" "formatBits 3 4 = 21360" "formatBits 3 5 = 22087"
  "formatBits 3 6 = 22814" "formatBits 3 7 = 23593"
  by (simp_all add: formatBits_def bchrem_unfold formatPoly_def Let_def)

lemma bchrem_0: "bchrem 0 = 0"
  by (simp add: bchrem_unfold formatPoly_def Let_def)

lemma bchrem_table:
  "bchrem 9174 = 0" "bchrem 9953 = 0" "bchrem 10680 = 0"
  "bchrem 11407 = 0" "bchrem 12861 = 0" "bchrem 14090 = 0"
  "bchrem 14419 = 0" "bchrem 15716 = 0" "bchrem 1335 = 0"
  "bchrem 2670 = 0" "bchrem 3929 = 0" "bchrem 4587 = 0"
  "bchrem 5340 = 0" "bchrem 7045 = 0" "bchrem 7858 = 0"
  "bchrem 24909 = 0" "bchrem 25722 = 0" "bchrem 27427 = 0"
  "bchrem 28180 = 0" "bchrem 28838 = 0" "bchrem 30097 = 0"
  "bchrem 31432 = 0" "bchrem 32767 = 0" "bchrem 17051 = 0"
  "bchrem 18348 = 0" "bchrem 18677 = 0" "bchrem 19906 = 0"
  "bchrem 21360 = 0" "bchrem 22087 = 0" "bchrem 22814 = 0"
  "bchrem 23593 = 0"
  by (simp_all add: bchrem_unfold formatPoly_def Let_def)

lemma placedFormat_table:
  "placedFormat 9174 = 30660" "placedFormat 9953 = 29427" "placedFormat 10680 = 32170"
  "placedFormat 11407 = 30877" "placedFormat 12861 = 26159" "placedFormat 14090 = 25368"
  "placedFormat 14419 = 27713" "placedFormat 15716 = 26998" "placedFormat 0 = 21522"
  "placedFormat 1335 = 20773" "placedFormat 2670 = 24188" "placedFormat 3929 = 23371"
  "placedFormat 4587 = 17913" "placedFormat 5340 = 16590" "placedFormat 7045 = 20375"
  "placedFormat 7858 = 19104" "placedFormat 24909 = 13663" "placedFormat 25722 = 12392"
  "placedFormat 27427 = 16177" "placedFormat 28180 = 14854" "placedFormat 28838 = 9396"
  "placedFormat 30097 = 8579" "placedFormat 31432 = 11994" "placedFormat 32767 = 11245"
  "placedFormat 17051 = 5769" "placedFormat 18348 = 5054" "placedFormat 18677 = 7399"
  "placedFormat 19906 = 6608" "placedFormat 21360 = 1890" "placedFormat 22087 = 597"
  "placedFormat 22814 = 3340" "placedFormat 23593 = 2107"
  by (simp_all add: placedFormat_def upt15 formatPixel_def Let_def px_defs OffsetPixel_def)

lemma bchrem_info_table:
  "bchrem 1024 = 311" "bchrem 2048 = 622" "bchrem 3072 = 857"
  "bchrem 4096 = 491" "bchrem 5120 = 220" "bchrem 6144 = 901"
  "bchrem 7168 = 690" "bchrem 8192 = 982" "bchrem 9216 = 737"
  "bchrem 10240 = 440" "bchrem 11264 = 143" "bchrem 12288 = 573"
  "bchrem 13312 = 778" "bchrem 14336 = 83" "bchrem 15360 = 356"
  "bchrem 16384 = 667" "bchrem 17408 = 940" "bchrem 18432 = 245"
  "bchrem 19456 = 450" "bchrem 20480 = 880" "bchrem 21504 = 583"
  "bchrem 22528 = 286" "bchrem 23552 = 41" "bchrem 24576 = 333"
  "bchrem 25600 = 122" "bchrem 26624 = 803" "bchrem 27648 = 532"
  "bchrem 28672 = 166" "bchrem 29696 = 401" "bchrem 30720 = 712"
  "bchrem 31744 = 1023"
  by (simp_all add: bchrem_unfold formatPoly_def Let_def)

lemma upt32: "[0..<32] = [0,1,2,3,4,5,6,7,8,9,10,11,12,13,14,15,16,17,18,19,20,21,22,23,
    24,25,26,27,28,29,30,31]"
  by code_simp

lemma gf2_mul_table:
  "gf2_mul 0 1335 = 0" "gf2_mul 1 1335 = 1335" "gf2_mul 2 1335 = 2670" "gf2_mul 3 1335 = 3929"
  "gf2_mul 4 1335 = 5340" "gf2_mul 5 1335 = 4587" "gf2_mul 6 1335 = 7858" "gf2_mul 7 1335 = 7045"
  "gf2_mul 8 1335 = 10680" "gf2_mul 9 1335 = 11407" "gf2_mul 10 1335 = 9174" "gf2_mul 11 1335 = 9953"
  "gf2_mul 12 1335 = 15716" "gf2_mul 13 1335 = 14419" "gf2_mul 14 1335 = 14090" "gf2_mul 15 1335 = 12861"
  "gf2_mul 16 1335 = 21360" "gf2_mul 17 1335 = 22087" "gf2_mul 18 1335 = 22814" "gf2_mul 19 1335 = 23593"
  "gf2_mul 20 1335 = 18348" "gf2_mul 21 1335 = 17051" "gf2_mul 22 1335 = 19906" "gf2_mul 23 1335 = 18677"
  "gf2_mul 24 1335 = 31432" "gf2_mul 25 1335 = 32767" "gf2_mul 26 1335 = 28838" "gf2_mul 27 1335 = 30097"
  "gf2_mul 28 1335 = 28180" "gf2_mul 29 1335 = 27427" "gf2_mul 30 1335 = 25722" "gf2_mul 31 1335 = 24909"
  by (simp_all add: gf2_mul_def upt32)

lemma codeword_multiples:
  "\<exists>q. q < 32 \<and> gf2_mul q formatPoly = 9174" "\<exists>q. q < 32 \<and> gf2_mul q formatPoly = 9953"
  "\<exists>q. q < 32 \<and> gf2_mul q formatPoly = 10680" "\<exists>q. q < 32 \<and> gf2_mul q formatPoly = 11407"
  "\<exists>q. q < 32 \<and> gf2_mul q formatPoly = 12861" "\<exists>q. q < 32 \<and> gf2_mul q formatPoly = 14090"
  "\<exists>q. q < 32 \<and> gf2_mul q formatPoly = 14419" "\<exists>q. q < 32 \<and> gf2_mul q formatPoly = 15716"
  "\<exists>q. q < 32 \<and> gf2_mul q formatPoly = 0" "\<exists>q. q < 32 \<and> gf2_mul q formatPoly = 1335"
  "\<exists>q. q < 32 \<and> gf2_mul q formatPoly = 2670" "\<exists>q. q < 32 \<and> gf2_mul q formatPoly = 3929"
  "\<exists>q. q < 32 \<and> gf2_mul q formatPoly = 4587" "\<exists>q. q < 32 \<and> gf2_mul q formatPoly = 5340"
  "\<exists>q. q < 32 \<and> gf2_mul q formatPoly = 7045" "\<exists>q. q < 32 \<and> gf2_mul q formatPoly = 7858"
  "\<exists>q. q < 32 \<and> gf2_mul q formatPoly = 24909" "\<exists>q. q < 32 \<and> gf2_mul q formatPoly = 25722"
  "\<exists>q. q < 32 \<and> gf2_mul q formatPoly = 27427" "\<exists>q. q < 32 \<and> gf2_mul q formatPoly = 28180"
  "\<exists>q. q < 32 \<and> gf2_mul q formatPoly = 28838" "\<exists>q. q < 32 \<and> gf2_mul q formatPoly = 30097"
  "\<exists>q. q < 32 \<and> gf2_mul q formatPoly = 31432" "\<exists>q. q < 32 \<and> gf2_mul q formatPoly = 32767"
  "\<exists>q. q < 32 \<and> gf2_mul q formatPoly = 17051" "\<exists>q. q < 32 \<and> gf2_mul q formatPoly = 18348"
  "\<exists>q. q < 32 \<and> gf2_mul q formatPoly = 18677" "\<exists>q. q < 32 \<and> gf2_mul q formatPoly = 19906"
  "\<exists>q. q < 32 \<and> gf2_mul q formatPoly = 21360" "\<exists>q. q < 32 \<and> gf2_mul q formatPoly = 22087"
  "\<exists>q. q < 32 \<and> gf2_mul q formatPoly = 22814" "\<exists>q. q < 32 \<and> gf2_mul q formatPoly = 23593"
proof -
  show "\<exists>q. q < 32 \<and> gf2_mul q formatPoly = 9174"
    by (rule exI [of _ 10]) (simp add: formatPoly_def gf2_mul_table)
  show "\<exists>q. q < 32 \<and> gf2_mul q formatPoly = 9953"
    by (rule exI [of _ 11]) (simp add: formatPoly_def gf2_mul_table)
  show "\<exists>q. q < 32 \<and> gf2_mul q formatPoly = 10680"
    by (rule exI [of _ 8]) (simp add: formatPoly_def gf2_mul_table)
  show "\<exists>q. q < 32 \<and> gf2_mul q formatPoly = 11407"
    by (rule exI [of _ 9]) (simp add: formatPoly_def gf2_mul_table)
  show "\<exists>q. q < 32 \<and> gf2_mul q formatPoly = 12861"
    by (rule exI [of _ 15]) (simp add: formatPoly_def gf2_mul_table)
  show "\<exists>q. q < 32 \<and> gf2_mul q formatPoly = 14090"
    by (rule exI [of _ 14]) (simp add: formatPoly_def gf2_mul_table)
  show "\<exists>q. q < 32 \<and> gf2_mul q formatPoly = 14419"
    by (rule exI [of _ 13]) (simp add: formatPoly_def gf2_mul_table)
  show "\<exists>q. q < 32 \<and> gf2_mul q formatPoly = 15716"
    by (rule exI [of _ 12]) (simp add: formatPoly_def gf2_mul_table)
  show "\<exists>q. q < 32 \<and> gf2_mul q formatPoly = 0"
    by (rule exI [of _ 0]) (simp add: formatPoly_def gf2_mul_table)
  show "\<exists>q. q < 32 \<and> gf2_mul q formatPoly = 1335"
    by (rule exI [of _ 1]) (simp add: formatPoly_def gf2_mul_table)
  show "\<exists>q. q < 32 \<and> gf2_mul q formatPoly = 2670"
    by (rule exI [of _ 2]) (simp add: formatPoly_def gf2_mul_table)
  show "\<exists>q. q < 32 \<and> gf2_mul q formatPoly = 3929"
    by (rule exI [of _ 3]) (simp add: formatPoly_def gf2_mul_table)
  show "\<exists>q. q < 32 \<and> gf2_mul q formatPoly = 4587"
    by (rule exI [of _ 5]) (simp add: formatPoly_def gf2_mul_table)
  show "\<exists>q. q < 32 \<and> gf2_mul q formatPoly = 5340"
    by (rule exI [of _ 4]) (simp add: formatPoly_def gf2_mul_table)
  show "\<exists>q. q < 32 \<and> gf2_mul q formatPoly = 7045"
    by (rule exI [of _ 7]) (simp add: formatPoly_def gf2_mul_table)
  show "\<exists>q. q < 32 \<and> gf2_mul q formatPoly = 7858"
    by (rule exI [of _ 6]) (simp add: formatPoly_def gf2_mul_table)
  show "\<exists>q. q < 32 \<and> gf2_mul q formatPoly = 24909"
    by (rule exI [of _ 31]) (simp add: formatPoly_def gf2_mul_table)
  show "\<exists>q. q < 32 \<and> gf2_mul q formatPoly = 25722"
    by (rule exI [of _ 30]) (simp add: formatPoly_def gf2_mul_table)
  show "\<exists>q. q < 32 \<and> gf2_mul q formatPoly = 27427"
    by (rule exI [of _ 29]) (simp add: formatPoly_def gf2_mul_table)
  show "\<exists>q. q < 32 \<and> gf2_mul q formatPoly = 28180"
    by (rule exI [of _ 28]) (simp add: formatPoly_def gf2_mul_table)
  show "\<exists>q. q < 32 \<and> gf2_mul q formatPoly = 28838"
    by (rule exI [of _ 26]) (simp add: formatPoly_def gf2_mul_table)
  show "\<exists>q. q < 32 \<and> gf2_mul q formatPoly = 30097"
    by (rule exI [of _ 27]) (simp add: formatPoly_def gf2_mul_table)
  show "\<exists>q. q < 32 \<and> gf2_mul q formatPoly = 31432"
    by (rule exI [of _ 24]) (simp add: formatPoly_def gf2_mul_table)
  show "\<exists>q. q < 32 \<and> gf2_mul q formatPoly = 32767"
    by (rule exI [of _ 25]) (simp add: formatPoly_def gf2_mul_table)
  show "\<exists>q. q < 32 \<and> gf2_mul q formatPoly = 17051"
    by (rule exI [of _ 21]) (simp add: formatPoly_def gf2_mul_table)
  show "\<exists>q. q < 32 \<and> gf2_mul q formatPoly = 18348"
    by (rule exI [of _ 20]) (simp add: formatPoly_def gf2_mul_table)
  show "\<exists>q. q < 32 \<and> gf2_mul q formatPoly = 18677"
    by (rule exI [of _ 23]) (simp add: formatPoly_def gf2_mul_table)
  show "\<exists>q. q < 32 \<and> gf2_mul q formatPoly = 19906"
    by (rule exI [of _ 22]) (simp add: formatPoly_def gf2_mul_table)
  show "\<exists>q. q < 32 \<and> gf2_mul q formatPoly = 21360"
    by (rule exI [of _ 16]) (simp add: formatPoly_def gf2_mul_table)
  show "\<exists>q. q < 32 \<and> gf2_mul q formatPoly = 22087"
    by (rule exI [of _ 17]) (simp add: formatPoly_def gf2_mul_table)
  show "\<exists>q. q < 32 \<and> gf2_mul q formatPoly = 22814"
    by (rule exI [of _ 18]) (simp add: formatPoly_def gf2_mul_table)
  show "\<exists>q. q < 32 \<and> gf2_mul q formatPoly = 23593"
    by (rule exI [of _ 19]) (simp add: formatPoly_def gf2_mul_table)
qed

lemma info_remainders:
  "\<exists>q. q < 32 \<and> gf2_mul q formatPoly XOR 982 = 8192"
  "\<exists>q. q < 32 \<and> gf2_mul q formatPoly XOR 737 = 9216"
  "\<exists>q. q < 32 \<and> gf2_mul q formatPoly XOR 440 = 10240"
  "\<exists>q. q < 32 \<and> gf2_mul q formatPoly XOR 143 = 11264"
  "\<exists>q. q < 32 \<and> gf2_mul q formatPoly XOR 573 = 12288"
  "\<exists>q. q < 32 \<and> gf2_mul q formatPoly XOR 778 = 13312"
  "\<exists>q. q < 32 \<and> gf2_mul q formatPoly XOR 83 = 14336"
  "\<exists>q. q < 32 \<and> gf2_mul q formatPoly XOR 356 = 15360"
  "\<exists>q. q < 32 \<and> gf2_mul q formatPoly XOR 0 = 0"
  "\<exists>q. q < 32 \<and> gf2_mul q formatPoly XOR 311 = 1024"
  "\<exists>q. q < 32 \<and> gf2_mul q formatPoly XOR 622 = 2048"
  "\<exists>q. q < 32 \<and> gf2_mul q formatPoly XOR 857 = 3072"
  "\<exists>q. q < 32 \<and> gf2_mul q formatPoly XOR 491 = 4096"
  "\<exists>q. q < 32 \<and> gf2_mul q formatPoly XOR 220 = 5120"
  "\<exists>q. q < 32 \<and> gf2_mul q formatPoly XOR 901 = 6144"
  "\<exists>q. q < 32 \<and> gf2_mul q formatPoly XOR 690 = 7168"
  "\<exists>q. q < 32 \<and> gf2_mul q formatPoly XOR 333 = 24576"
  "\<exists>q. q < 32 \<and> gf2_mul q formatPoly XOR 122 = 25600"
  "\<exists>q. q < 32 \<and> gf2_mul q formatPoly XOR 803 = 26624"
  "\<exists>q. q < 32 \<and> gf2_mul q formatPoly XOR 532 = 27648"
  "\<exists>q. q < 32 \<and> gf2_mul q formatPoly XOR 166 = 28672"
  "\<exists>q. q < 32 \<and> gf2_mul q formatPoly XOR 401 = 29696"
  "\<exists>q. q < 32 \<and> gf2_mul q formatPoly XOR 712 = 30720"
  "\<exists>q. q < 32 \<and> gf2_mul q formatPoly XOR 1023 = 31744"
  "\<exists>q. q < 32 \<and> gf2_mul q formatPoly XOR 667 = 16384"
  "\<exists>q. q < 32 \<and> gf2_mul q formatPoly XOR 940 = 17408"
  "\<exists>q. q < 32 \<and> gf2_mul q formatPoly XOR 245 = 18432"
  "\<exists>q. q < 32 \<and> gf2_mul q formatPoly XOR 450 = 19456"
  "\<exists>q. q < 32 \<and> gf2_mul q formatPoly XOR 880 = 20480"
  "\<exists>q. q < 32 \<and> gf2_mul q formatPoly XOR 583 = 21504"
  "\<exists>q. q < 32 \<and> gf2_mul q formatPoly XOR 286 = 22528"
  "\<exists>q. q < 32 \<and> gf2_mul q formatPoly XOR 41 = 23552"
proof -
  show "\<exists>q. q < 32 \<and> gf2_mul q formatPoly XOR 982 = 8192"
    by (rule exI [of _ 10]) (simp add: formatPoly_def gf2_mul_table)
  show "\<exists>q. q < 32 \<and> gf2_mul q formatPoly XOR 737 = 9216"
    by (rule exI [of _ 11]) (simp add: formatPoly_def gf2_mul_table)
  show "\<exists>q. q < 32 \<and> gf2_mul q formatPoly XOR 440 = 10240"
    by (rule exI [of _ 8]) (simp add: formatPoly_def gf2_mul_table)
  show "\<exists>q. q < 32 \<and> gf2_mul q formatPoly XOR 143 = 11264"
    by (rule exI [of _ 9]) (simp add: formatPoly_def gf2_mul_table)
  show "\<exists>q. q < 32 \<and> gf2_mul q formatPoly XOR 573 = 12288"
    by (rule exI [of _ 15]) (simp add: formatPoly_def gf2_mul_table)
  show "\<exists>q. q < 32 \<and> gf2_mul q formatPoly XOR 778 = 13312"
    by (rule exI [of _ 14]) (simp add: formatPoly_def gf2_mul_table)
  show "\<exists>q. q < 32 \<and> gf2_mul q formatPoly XOR 83 = 14336"
    by (rule exI [of _ 13]) (simp add: formatPoly_def gf2_mul_table)
  show "\<exists>q. q < 32 \<and> gf2_mul q formatPoly XOR 356 = 15360"
    by (rule exI [of _ 12]) (simp add: formatPoly_def gf2_mul_table)
  show "\<exists>q. q < 32 \<and> gf2_mul q formatPoly XOR 0 = 0"
    by (rule exI [of _ 0]) (simp add: formatPoly_def gf2_mul_table)
  show "\<exists>q. q < 32 \<and> gf2_mul q formatPoly XOR 311 = 1024"
    by (rule exI [of _ 1]) (simp add: formatPoly_def gf2_mul_table)
  show "\<exists>q. q < 32 \<and> gf2_mul q formatPoly XOR 622 = 2048"
    by (rule exI [of _ 2]) (simp add: formatPoly_def gf2_mul_table)
  show "\<exists>q. q < 32 \<and> gf2_mul q formatPoly XOR 857 = 3072"
    by (rule exI [of _ 3]) (simp add: formatPoly_def gf2_mul_table)
  show "\<exists>q. q < 32 \<and> gf2_mul q formatPoly XOR 491 = 4096"
    by (rule exI [of _ 5]) (simp add: formatPoly_def gf2_mul_table)
  show "\<exists>q. q < 32 \<and> gf2_mul q formatPoly XOR 220 = 5120"
    by (rule exI [of _ 4]) (simp add: formatPoly_def gf2_mul_table)
  show "\<exists>q. q < 32 \<and> gf2_mul q formatPoly XOR 901 = 6144"
    by (rule exI [of _ 7]) (simp add: formatPoly_def gf2_mul_table)
  show "\<exists>q. q < 32 \<and> gf2_mul q formatPoly XOR 690 = 7168"
    by (rule exI [of _ 6]) (simp add: formatPoly_def gf2_mul_table)
  show "\<exists>q. q < 32 \<and> gf2_mul q formatPoly XOR 333 = 24576"
    by (rule exI [of _ 31]) (simp add: formatPoly_def gf2_mul_table)
  show "\<exists>q. q < 32 \<and> gf2_mul q formatPoly XOR 122 = 25600"
    by (rule exI [of _ 30]) (simp add: formatPoly_def gf2_mul_table)
  show "\<exists>q. q < 32 \<and> gf2_mul q formatPoly XOR 803 = 26624"
    by (rule exI [of _ 29]) (simp add: formatPoly_def gf2_mul_table)
  show "\<exists>q. q < 32 \<and> gf2_mul q formatPoly XOR 532 = 27648"
    by (rule exI [of _ 28]) (simp add: formatPoly_def gf2_mul_table)
  show "\<exists>q. q < 32 \<and> gf2_mul q formatPoly XOR 166 = 28672"
    by (rule exI [of _ 26]) (simp add: formatPoly_def gf2_mul_table)
  show "\<exists>q. q < 32 \<and> gf2_mul q formatPoly XOR 401 = 29696"
    by (rule exI [of _ 27]) (simp add: formatPoly_def gf2_mul_table)
  show "\<exists>q. q < 32 \<and> gf2_mul q formatPoly XOR 712 = 30720"
    by (rule exI [of _ 24]) (simp add: formatPoly_def gf2_mul_table)
  show "\<exists>q. q < 32 \<and> gf2_mul q formatPoly XOR 1023 = 31744"
    by (rule exI [of _ 25]) (simp add: formatPoly_def gf2_mul_table)
  show "\<exists>q. q < 32 \<and> gf2_mul q formatPoly XOR 667 = 16384"
    by (rule exI [of _ 21]) (simp add: formatPoly_def gf2_mul_table)
  show "\<exists>q. q < 32 \<and> gf2_mul q formatPoly XOR 940 = 17408"
    by (rule exI [of _ 20]) (simp add: formatPoly_def gf2_mul_table)
  show "\<exists>q. q < 32 \<and> gf2_mul q formatPoly XOR 245 = 18432"
    by (rule exI [of _ 23]) (simp add: formatPoly_def gf2_mul_table)
  show "\<exists>q. q < 32 \<and> gf2_mul q formatPoly XOR 450 = 19456"
    by (rule exI [of _ 22]) (simp add: formatPoly_def gf2_mul_table)
  show "\<exists>q. q < 32 \<and> gf2_mul q formatPoly XOR 880 = 20480"
    by (rule exI [of _ 16]) (simp add: formatPoly_def gf2_mul_table)
  show "\<exists>q. q < 32 \<and> gf2_mul q formatPoly XOR 583 = 21504"
    by (rule exI [of _ 17]) (simp add: formatPoly_def gf2_mul_table)
  show "\<exists>q. q < 32 \<and> gf2_mul q formatPoly XOR 286 = 22528"
    by (rule exI [of _ 18]) (simp add: formatPoly_def gf2_mul_table)
  show "\<exists>q. q < 32 \<and> gf2_mul q formatPoly XOR 41 = 23552"
    by (rule exI [of _ 19]) (simp add: formatPoly_def gf2_mul_table)
qed

text \<open>
  C4: for the level values 0..3 and the mask ids 0..7 the codeword \<open>fb\<close> of \<open>fplan\<close> carries
  \<open>level XOR 1\<close> in bits 14-13, the mask id in bits 12-10 and the remainder of the five
  information bits in its low ten bits; the placed Black flags spell \<open>fb XOR 0x5412\<close>.
  Undoing that XOR gives a multiple of the generator 0x537 as a polynomial over GF(2), with
  a quotient of at most five bits, and the remainder loop run on it returns zero.  The low
  ten bits are the polynomial remainder of the information bits: information bits and low
  bits differ by a multiple of the generator, and the low bits are below \<open>2 ^ 10\<close>.
\<close>

theorem format_round_trip:
  assumes "0 \<le> l" "l \<le> 3" "0 \<le> k" "k \<le> 7"
  shows "drop_bit 13 (formatBits l k) = word_of_int (l XOR 1) \<and>
         take_bit 3 (drop_bit 10 (formatBits l k)) = word_of_int k \<and>
         take_bit 10 (formatBits l k) = bchrem (push_bit 10 (drop_bit 10 (formatBits l k))) \<and>
         placedFormat (formatBits l k) = formatBits l k XOR 0x5412 \<and>
         bchrem (placedFormat (formatBits l k) XOR 0x5412) = 0 \<and>
         (\<exists>q. q < 32 \<and> gf2_mul q formatPoly = placedFormat (formatBits l k) XOR 0x5412) \<and>
         (\<exists>q. q < 32 \<and>
              gf2_mul q formatPoly XOR take_bit 10 (formatBits l k) =
              push_bit 10 (drop_bit 10 (formatBits l k))) \<and>
         take_bit 10 (formatBits l k) < 2 ^ 10"
proof -
  from assms have "l \<in> {0, 1, 2, 3}" "k \<in> {0, 1, 2, 3, 4, 5, 6, 7}" by auto
  then show ?thesis
    by (elim insertE emptyE;
        simp add: formatBits_table placedFormat_table bchrem_table bchrem_info_table bchrem_0
          codeword_multiples info_remainders)
qed

theorem format_round_trip_witness:
  "bchrem (placedFormat (formatBits 3 5) XOR 0x5412) = 0 \<and> formatBits 3 5 \<noteq> 0 \<and>
   (\<exists>q. q < 32 \<and> gf2_mul q formatPoly = formatBits 3 5)"
  using format_round_trip [of 3 5]
  by (simp add: formatBits_table placedFormat_table bchrem_table)

subsection \<open>Cells of the returned plan\<close>

lemma grid_rep_cell:
  assumes "grid_rep n (Pixel p) g" "inGrid n q"
  shows "cellAt p q = g q"
  using assms by (cases q) (simp add: grid_rep_def cellAt_def inGrid_def)

lemma NewPlan_cells:
  assumes "1 \<le> v" "v \<le> 40" "0 \<le> k" "k \<le> 7"
  shows "\<exists>p. NewPlan v l k = Some (Inr p) \<and>
           (\<forall>q. inGrid (17 + v * 4) q \<longrightarrow>
              cellAt p q = formatT (formatBits l k) (17 + v * 4) (geometry (vtab ! nat v) (17 + v * 4)) q)"
proof -
  from assms have "k < 8" by simp
  from NewPlan_rep [OF assms(1,2,3) this, of l] obtain m where
    m: "NewPlan v l k = Some (Inr \<lparr>Version = v, Level = l, Mask = k, DataBytes = 0,
                CheckBytes = 0, Blocks = 0, Pixel = m\<rparr>)" "grid_rep (17 + v * 4) m (finalGrid v l k)"
    by blast
  let ?p = "\<lparr>Version = v, Level = l, Mask = k, DataBytes = 0,
                CheckBytes = 0, Blocks = 0, Pixel = m\<rparr>"
  from m(2) have "grid_rep (17 + v * 4) (Pixel ?p) (finalGrid v l k)" by simp
  from grid_rep_cell [OF this] m(1) show ?thesis
    by (auto simp: finalGrid_unmasked)
qed

lemma vplan_cells:
  assumes "1 \<le> v" "v \<le> 40"
  shows "\<exists>p. vplan v = Some (Inr p) \<and>
           (\<forall>q. inGrid (17 + v * 4) q \<longrightarrow> cellAt p q = geometry (vtab ! nat v) (17 + v * 4) q)"
proof -
  from vplan_geometry [OF assms refl refl] obtain m where
    m: "vplan v = Some (Inr \<lparr>Version = v, Level = 0, Mask = 0, DataBytes = 0,
                CheckBytes = 0, Blocks = 0, Pixel = m\<rparr>)"
       "grid_rep (17 + v * 4) m (geometry (vtab ! nat v) (17 + v * 4))"
    by blast
  let ?p = "\<lparr>Version = v, Level = 0, Mask = 0, DataBytes = 0,
                CheckBytes = 0, Blocks = 0, Pixel = m\<rparr>"
  from m(2) have "grid_rep (17 + v * 4) (Pixel ?p) (geometry (vtab ! nat v) (17 + v * 4))" by simp
  from grid_rep_cell [OF this] m(1) show ?thesis by auto
qed

lemma fmtCells_shape:
  assumes "21 \<le> n" "(r, c) \<in> fmtCells n"
  shows "r \<noteq> 6 \<and> c \<noteq> 6 \<and> 0 \<le> r \<and> r < n \<and> 0 \<le> c \<and> c < n \<and>
         (c = 8 \<and> (r \<le> 8 \<or> n - 7 \<le> r) \<or> r = 8 \<and> (c \<le> 8 \<or> n - 8 \<le> c))"
proof -
  from assms(2) obtain i where i: "0 \<le> i" "i \<le> 14" "(r, c) = fmtA i \<or> (r, c) = fmtB n i"
    by (auto simp: fmtCells_def)
  from i(3) show ?thesis
  proof
    assume "(r, c) = fmtA i"
    then show ?thesis using i(1,2) assms(1) by (auto simp: fmtA_def split: if_splits)
  next
    assume "(r, c) = fmtB n i"
    then show ?thesis using i(1,2) assms(1) by (auto simp: fmtB_def split: if_splits)
  qed
qed

lemma stamped_shape:
  assumes "entry_ok info n" "(x, y) \<in> set (stamped info n)"
  shows "(x = 4 \<or> 16 \<le> x \<and> x + 9 \<le> n) \<and> (y = 4 \<or> 16 \<le> y \<and> y + 9 \<le> n) \<and> \<not> excluded n x y"
  using stamped_cands [OF assms(2)] axisWalk_range [OF assms(1)] by blast

lemma fmtCells_blank:
  assumes "21 \<le> n" "entry_ok info n" "q \<in> fmtCells n"
  shows "geometry info n q = 0"
proof -
  obtain r c where q: "q = (r, c)" by (cases q)
  note sh = fmtCells_shape [OF assms(1) assms(3) [unfolded q]]
  have "q \<notin> box5 x y" if "(x, y) \<in> set (stamped info n)" for x y
  proof
    assume "q \<in> box5 x y"
    then have b: "y \<le> r" "r < y + 5" "x \<le> c" "c < x + 5" by (simp_all add: q box5_def)
    from stamped_shape [OF assms(2) that] sh b assms(1) show False
      unfolding excluded_def by arith
  qed
  then have "geometry info n q = background n q" by (rule geometry_out)
  also have "\<dots> = 0"
  proof -
    have "q \<notin> posRegion n 0 0" "q \<notin> posRegion n (n - 7) 0" "q \<notin> posRegion n 0 (n - 7)"
      "q \<notin> timingSet n"
      using sh assms(1) by (auto simp: q posRegion_def timingSet_def)
    then show ?thesis by (simp add: background_cases)
  qed
  finally show ?thesis .
qed

lemma in_fmtCells: "0 \<le> i \<Longrightarrow> i \<le> 14 \<Longrightarrow> fmtA i \<in> fmtCells n \<and> fmtB n i \<in> fmtCells n"
  by (auto simp: fmtCells_def)

lemma fmtCells_inGrid: "21 \<le> n \<Longrightarrow> q \<in> fmtCells n \<Longrightarrow> inGrid n q"
  using fmtCells_shape [of n "fst q" "snd q"] by (simp add: inGrid_def case_prod_unfold)

subsection \<open>Later stages keep the geometry\<close>

lemma geometry_corner:
  assumes "21 \<le> n" "entry_ok info n"
  shows "geometry info n (0, 0) = PixelRole_Pixel Position OR Black"
proof -
  have "(0, 0) \<notin> box5 x y" if "(x, y) \<in> set (stamped info n)" for x y
    using stamped_shape [OF assms(2) that] by (auto simp: box5_def)
  then have "geometry info n (0, 0) = background n (0, 0)" by (rule geometry_out)
  moreover have "(0, 0) \<notin> posRegion n 0 (n - 7)" "(0, 0) \<notin> posRegion n (n - 7) 0"
    "(0, 0) \<in> posRegion n 0 0"
    using assms(1) by (simp_all add: posRegion_def)
  ultimately show ?thesis by (simp add: background_cases posPattern_def)
qed

text \<open>
  C9: for a valid version and a mask id in 0..7, every cell that \<open>vplan\<close> leaves with role
  Position, Alignment or Timing has the same value (role, flags and offset) in the plan that
  \<open>NewPlan\<close> returns: \<open>fplan\<close> and \<open>mplan\<close> do not touch it.
\<close>

theorem geometry_cells_kept:
  assumes "1 \<le> v" "v \<le> 40" "0 \<le> k" "k \<le> 7"
  shows "\<exists>pv p. vplan v = Some (Inr pv) \<and> NewPlan v l k = Some (Inr p) \<and>
           (\<forall>q. inGrid (17 + v * 4) q \<and> Role (cellAt pv q) \<in> {Position, Alignment, Timing} \<longrightarrow>
                cellAt p q = cellAt pv q \<and> cellAt p q AND Black = cellAt pv q AND Black)"
proof -
  define n where "n = 17 + v * 4"
  define info where "info = vtab ! nat v"
  have n: "21 \<le> n" using assms by (simp add: n_def)
  have eok: "entry_ok info n" using vtab_ok [OF assms(1,2)] by (simp only: n_def info_def)
  from vplan_cells [OF assms(1,2)] obtain pv where pv: "vplan v = Some (Inr pv)"
    "\<And>q. inGrid n q \<Longrightarrow> cellAt pv q = geometry info n q"
    unfolding n_def info_def by blast
  from NewPlan_cells [OF assms, of l] obtain p where p: "NewPlan v l k = Some (Inr p)"
    "\<And>q. inGrid n q \<Longrightarrow> cellAt p q = formatT (formatBits l k) n (geometry info n) q"
    unfolding n_def info_def by blast
  have "cellAt p q = cellAt pv q"
    if q: "inGrid n q" and r: "Role (cellAt pv q) \<in> {Position, Alignment, Timing}" for q
  proof -
    have "q \<notin> fmtCells n"
    proof
      assume "q \<in> fmtCells n"
      from fmtCells_blank [OF n eok this] pv(2) [OF q] have "cellAt pv q = 0" by simp
      with r show False by (simp add: px_defs)
    qed
    then show ?thesis using p(2) [OF q] pv(2) [OF q] by (simp add: formatT_out)
  qed
  with pv(1) p(1) show ?thesis unfolding n_def by auto
qed

theorem geometry_cells_kept_witness:
  "\<exists>pv p. vplan 7 = Some (Inr pv) \<and> NewPlan 7 L 3 = Some (Inr p) \<and>
     inGrid 45 (0, 0) \<and> Role (cellAt pv (0, 0)) = Position \<and> cellAt p (0, 0) = cellAt pv (0, 0)"
proof -
  from geometry_cells_kept [of 7 3 L] obtain pv p where
    *: "vplan 7 = Some (Inr pv)" "NewPlan 7 L 3 = Some (Inr p)"
       "\<And>q. inGrid 45 q \<Longrightarrow> Role (cellAt pv q) \<in> {Position, Alignment, Timing} \<Longrightarrow>
            cellAt p q = cellAt pv q"
    by auto
  from vplan_cells [of 7] *(1) have
    c: "\<And>q. inGrid 45 q \<Longrightarrow> cellAt pv q = geometry (vtab ! nat 7) 45 q"
    by auto
  have g: "inGrid 45 (0, 0)" by (simp add: inGrid_def)
  have "entry_ok (vtab ! nat 7) 45" using vtab_ok [of 7] by simp
  then have "cellAt pv (0, 0) = PixelRole_Pixel Position OR Black"
    using c [OF g] geometry_corner [of 45] by simp
  then have r: "Role (cellAt pv (0, 0)) = Position" by (simp add: px_defs)
  with * g show ?thesis by auto
qed

subsection \<open>The two format copies\<close>

lemma fmtCells_card:
  assumes "21 \<le> n"
  shows "card (fmtCells n) = 30"
proof -
  have eq: "fmtCells n = fmtA ` {0..14} \<union> fmtB n ` {0..14}"
    by (auto simp: fmtCells_def)
  have ia: "inj_on fmtA {0..14}"
    by (rule inj_onI) (use fmt_distinct(2) [OF assms] in auto)
  have ib: "inj_on (fmtB n) {0..14}"
    by (rule inj_onI) (use fmt_distinct(3) [OF assms] in auto)
  have "fmtA i \<noteq> fmtB n j" if "i \<in> {0..14}" "j \<in> {0..14}" for i j
    using that fmt_distinct(1) [OF assms, of i j] by simp
  then have dj: "fmtA ` {0..14} \<inter> fmtB n ` {0..14} = {}"
    by blast
  have "card (fmtA ` {0..14::int}) = 15" "card (fmtB n ` {0..14::int}) = 15"
    using ia ib by (simp_all add: card_image)
  then show ?thesis
    unfolding eq using dj by (simp add: card_Un_disjoint)
qed

text \<open>
  C6: for a valid version, any level and a mask id in 0..7, \<open>fplan\<close> leaves each format bit
  \<open>i\<close> of 0..14 in exactly two cells of the final grid: \<open>fmtA i\<close> in the rows and columns
  0..8 next to the top-left finder, and \<open>fmtB n i\<close> in row 8 at the right edge or column 8 at
  the bottom edge.  Both hold the same pixel (role Format, offset \<open>i\<close>, same flags), no other
  cell of the grid has role Format and offset \<open>i\<close>, and the thirty cells are pairwise distinct.
\<close>

theorem format_two_copies:
  assumes "1 \<le> v" "v \<le> 40" "0 \<le> k" "k \<le> 7"
  shows "\<exists>p. NewPlan v l k = Some (Inr p) \<and>
     (\<forall>i. 0 \<le> i \<and> i \<le> 14 \<longrightarrow>
        cellAt p (fmtA i) = formatPixel (formatBits l k) i \<and>
        cellAt p (fmtB (17 + v * 4) i) = formatPixel (formatBits l k) i \<and>
        Role (formatPixel (formatBits l k) i) = Format \<and>
        Offset (formatPixel (formatBits l k) i) = i \<and>
        fmtA i \<noteq> fmtB (17 + v * 4) i \<and>
        fst (fmtA i) \<le> 8 \<and> snd (fmtA i) \<le> 8 \<and>
        (fst (fmtB (17 + v * 4) i) = 8 \<and> 17 + v * 4 - 8 \<le> snd (fmtB (17 + v * 4) i) \<or>
         snd (fmtB (17 + v * 4) i) = 8 \<and> 17 + v * 4 - 7 \<le> fst (fmtB (17 + v * 4) i)) \<and>
        {q. inGrid (17 + v * 4) q \<and> Role (cellAt p q) = Format \<and> Offset (cellAt p q) = i} =
          {fmtA i, fmtB (17 + v * 4) i}) \<and>
     card (\<Union>i\<in>{0..14}. {fmtA i, fmtB (17 + v * 4) i}) = 30"
proof -
  define n where "n = 17 + v * 4"
  define info where "info = vtab ! nat v"
  define fb where "fb = formatBits l k"
  have n: "21 \<le> n" using assms by (simp add: n_def)
  from NewPlan_cells [OF assms, of l] obtain p where p: "NewPlan v l k = Some (Inr p)"
    "\<And>q. inGrid n q \<Longrightarrow> cellAt p q = formatT fb n (geometry info n) q"
    unfolding n_def info_def fb_def by blast
  have gr: "inGrid n (fmtA i)" "inGrid n (fmtB n i)" if "0 \<le> i" "i \<le> 14" for i
    using in_fmtCells [OF that, of n] fmtCells_inGrid [OF n] by blast+
  have inA: "cellAt p (fmtA i) = formatPixel fb i" and inB: "cellAt p (fmtB n i) = formatPixel fb i"
    if "0 \<le> i" "i \<le> 14" for i
    using p(2) [OF gr(1) [OF that]] p(2) [OF gr(2) [OF that]] formatT_in [OF n that]
    by simp_all
  have out: "Role (cellAt p q) \<noteq> Format" if "inGrid n q" "q \<notin> fmtCells n" for q
  proof -
    have "cellAt p q = geometry info n q" using p(2) [OF that(1)] that(2) by (simp add: formatT_out)
    then show ?thesis using Role_geometry [of info n q] by (auto simp: px_defs)
  qed
  have cells: "{q. inGrid n q \<and> Role (cellAt p q) = Format \<and> Offset (cellAt p q) = i} =
          {fmtA i, fmtB n i}" if i: "0 \<le> i" "i \<le> 14" for i
  proof (intro set_eqI iffI)
    fix q assume "q \<in> {fmtA i, fmtB n i}"
    then show "q \<in> {q. inGrid n q \<and> Role (cellAt p q) = Format \<and> Offset (cellAt p q) = i}"
      using inA [OF i] inB [OF i] gr [OF i]
        Role_formatPixel [OF i] Offset_formatPixel [OF i]
      by auto
  next
    fix q assume "q \<in> {q. inGrid n q \<and> Role (cellAt p q) = Format \<and> Offset (cellAt p q) = i}"
    then have q: "inGrid n q" "Role (cellAt p q) = Format" "Offset (cellAt p q) = i" by simp_all
    from out [OF q(1)] q(2) have "q \<in> fmtCells n" by blast
    then obtain j where j: "0 \<le> j" "j \<le> 14" "q = fmtA j \<or> q = fmtB n j"
      by (auto simp: fmtCells_def)
    from j(3) inA [OF j(1,2)] inB [OF j(1,2)] have "cellAt p q = formatPixel fb j" by auto
    with q(3) Offset_formatPixel [OF j(1,2), of fb] have "j = i" by simp
    with j(3) show "q \<in> {fmtA i, fmtB n i}" by auto
  qed
  have "card (\<Union>i\<in>{0..14}. {fmtA i, fmtB n i}) = 30"
    using fmtCells_card [OF n] by (simp add: fmtCells_def)
  moreover have "fst (fmtA i) \<le> 8 \<and> snd (fmtA i) \<le> 8 \<and>
        (fst (fmtB n i) = 8 \<and> n - 8 \<le> snd (fmtB n i) \<or>
         snd (fmtB n i) = 8 \<and> n - 7 \<le> fst (fmtB n i))" if "0 \<le> i" "i \<le> 14" for i
    using fmtA_bounds [OF that] fmtB_bounds [OF that, of n] by auto
  ultimately show ?thesis
    using p(1) inA inB cells Role_formatPixel Offset_formatPixel fmt_distinct(1) [OF n]
    unfolding n_def [symmetric] fb_def [symmetric]
    by (intro exI [of _ p]) simp
qed

theorem format_two_copies_witness:
  "\<exists>p. NewPlan 2 L 5 = Some (Inr p) \<and>
     cellAt p (0, 8) = formatPixel (formatBits L 5) 0 \<and>
     cellAt p (8, 24) = formatPixel (formatBits L 5) 0 \<and>
     {q. inGrid 25 q \<and> Role (cellAt p q) = Format \<and> Offset (cellAt p q) = 0} = {(0, 8), (8, 24)}"
proof -
  from format_two_copies [of 2 5 L] obtain p where
    *: "NewPlan 2 L 5 = Some (Inr p)"
    "\<And>i. 0 \<le> i \<Longrightarrow> i \<le> 14 \<Longrightarrow>
        cellAt p (fmtA i) = formatPixel (formatBits L 5) i \<and>
        cellAt p (fmtB 25 i) = formatPixel (formatBits L 5) i \<and>
        {q. inGrid 25 q \<and> Role (cellAt p q) = Format \<and> Offset (cellAt p q) = i} =
          {fmtA i, fmtB 25 i}"
    by auto
  from *(2) [of 0] *(1) show ?thesis by (simp add: fmtA_def fmtB_def)
qed

subsection \<open>Alignment boxes\<close>

lemma overlap_iff:
  assumes "21 \<le> n" "x = 4 \<or> 16 \<le> x \<and> x + 9 \<le> n" "y = 4 \<or> 16 \<le> y \<and> y + 9 \<le> n"
  shows "box5 x y \<inter> finderZones n = {} \<longleftrightarrow> \<not> excluded n x y"
proof
  assume e: "box5 x y \<inter> finderZones n = {}"
  show "\<not> excluded n x y"
  proof
    assume "excluded n x y"
    then consider "x < 7 \<and> y < 7" | "x < 7 \<and> y + 5 \<ge> n - 7" | "x + 5 \<ge> n - 7 \<and> y < 7"
      by (auto simp: excluded_def)
    then have "\<exists>q. q \<in> box5 x y \<and> q \<in> finderZones n"
    proof cases
      case 1
      with assms have "(y, x) \<in> box5 x y \<and> (y, x) \<in> finderZones n"
        by (simp add: box5_def finderZones_def posRegion_def)
      then show ?thesis by blast
    next
      case 2
      with assms have "(y + 4, x) \<in> box5 x y \<and> (y + 4, x) \<in> finderZones n"
        by (simp add: box5_def finderZones_def posRegion_def)
      then show ?thesis by blast
    next
      case 3
      with assms have "(y, x + 4) \<in> box5 x y \<and> (y, x + 4) \<in> finderZones n"
        by (simp add: box5_def finderZones_def posRegion_def)
      then show ?thesis by blast
    qed
    with e show False by blast
  qed
next
  assume ne: "\<not> excluded n x y"
  show "box5 x y \<inter> finderZones n = {}"
  proof (rule ccontr)
    assume "box5 x y \<inter> finderZones n \<noteq> {}"
    then obtain r c where "(r, c) \<in> box5 x y" "(r, c) \<in> finderZones n" by auto
    then have "y \<le> r \<and> r < y + 5 \<and> x \<le> c \<and> c < x + 5"
      "(r \<le> 7 \<and> c \<le> 7) \<or> (r \<le> 7 \<and> n - 8 \<le> c) \<or> (n - 8 \<le> r \<and> c \<le> 7)"
      by (auto simp: box5_def finderZones_def posRegion_def)
    with ne assms show False unfolding excluded_def by arith
  qed
qed

lemma stamped_alignCorners:
  assumes "21 \<le> n" "entry_ok info n"
  shows "stamped info n = alignCorners info n"
proof -
  have w: "axisWalk info n = axisCandidates info n"
    using assms(2) by (simp add: axisWalk_def axisCandidates_def entry_ok_def)
  have "filter (\<lambda>(x, y). \<not> excluded n x y) (List.product (axisWalk info n) (axisWalk info n)) =
        filter (\<lambda>(x, y). box5 x y \<inter> finderZones n = {}) (List.product (axisWalk info n) (axisWalk info n))"
  proof (rule filter_cong [OF refl])
    fix b assume "b \<in> set (List.product (axisWalk info n) (axisWalk info n))"
    then obtain x y where b: "b = (x, y)" "x \<in> set (axisWalk info n)" "y \<in> set (axisWalk info n)"
      by auto
    from overlap_iff [OF assms(1) axisWalk_range [OF assms(2) b(2)] axisWalk_range [OF assms(2) b(3)]]
    show "(case b of (x, y) \<Rightarrow> \<not> excluded n x y) = (case b of (x, y) \<Rightarrow> box5 x y \<inter> finderZones n = {})"
      by (simp add: b(1))
  qed
  then show ?thesis by (simp add: stamped_def alignCorners_def w)
qed

lemma stamped_v1: "stamped (vtab ! nat 1) 21 = []"
  by code_simp

lemma stamped_v7: "stamped (vtab ! nat 7) 45 = [(4, 20), (20, 4), (20, 20), (20, 36), (36, 20), (36, 36)]"
  by code_simp

lemma box5_inGrid:
  assumes "entry_ok info n" "21 \<le> n" "(x, y) \<in> set (stamped info n)" "q \<in> box5 x y"
  shows "inGrid n q"
  using stamped_shape [OF assms(1,3)] assms(2,4)
  by (cases q) (auto simp: box5_def inGrid_def)

text \<open>
  C8: for every version in 1..40 the grid built by \<open>vplan\<close> holds, at each corner of
  \<open>alignCorners\<close>, the 5x5 alignment pattern (black ring and black centre, light elsewhere),
  and no cell outside these boxes has role Alignment.  The corners are the pairs of axis
  candidates (4, then \<open>apos\<close>, then steps of \<open>astride\<close> up to \<open>siz - 9\<close>) whose footprint is
  disjoint from the three finder zones, so no box meets a finder or its border; version 1
  has no corner at all.
\<close>

theorem alignment_boxes:
  assumes "1 \<le> v" "v \<le> 40"
  shows "\<exists>p. vplan v = Some (Inr p) \<and>
     (\<forall>(x, y)\<in>set (alignCorners (vtab ! nat v) (17 + v * 4)). \<forall>q\<in>box5 x y.
         inGrid (17 + v * 4) q \<and> cellAt p q = alignPattern x y q) \<and>
     (\<forall>q. inGrid (17 + v * 4) q \<and> Role (cellAt p q) = Alignment \<longrightarrow>
         (\<exists>(x, y)\<in>set (alignCorners (vtab ! nat v) (17 + v * 4)). q \<in> box5 x y)) \<and>
     (\<forall>(x, y)\<in>set (alignCorners (vtab ! nat v) (17 + v * 4)).
         box5 x y \<inter> finderZones (17 + v * 4) = {}) \<and>
     (v = 1 \<longrightarrow> alignCorners (vtab ! nat v) (17 + v * 4) = [])"
proof -
  define n where "n = 17 + v * 4"
  define info where "info = vtab ! nat v"
  have n: "21 \<le> n" using assms by (simp add: n_def)
  have eok: "entry_ok info n" using vtab_ok [OF assms(1,2)] by (simp only: n_def info_def)
  note st = stamped_alignCorners [OF n eok]
  from vplan_cells [OF assms(1,2)] obtain p where p: "vplan v = Some (Inr p)"
    "\<And>q. inGrid n q \<Longrightarrow> cellAt p q = geometry info n q"
    unfolding n_def info_def by blast
  have 1: "\<forall>(x, y)\<in>set (alignCorners info n). \<forall>q\<in>box5 x y.
         inGrid n q \<and> cellAt p q = alignPattern x y q"
  proof (clarify, rule conjI)
    fix x y a b assume c: "(x, y) \<in> set (alignCorners info n)" "(a, b) \<in> box5 x y"
    from c(1) have s: "(x, y) \<in> set (stamped info n)" by (simp add: st)
    show g: "inGrid n (a, b)" by (rule box5_inGrid [OF eok n s c(2)])
    from p(2) [OF g] geometry_in [OF eok s c(2)]
    show "cellAt p (a, b) = alignPattern x y (a, b)" by simp
  qed
  have 2: "\<forall>q. inGrid n q \<and> Role (cellAt p q) = Alignment \<longrightarrow>
         (\<exists>(x, y)\<in>set (alignCorners info n). q \<in> box5 x y)"
  proof (intro allI impI, rule ccontr)
    fix q assume q: "inGrid n q \<and> Role (cellAt p q) = Alignment"
    assume "\<not> (\<exists>(x, y)\<in>set (alignCorners info n). q \<in> box5 x y)"
    then have "\<And>x y. (x, y) \<in> set (stamped info n) \<Longrightarrow> q \<notin> box5 x y"
      by (auto simp: st)
    then have "geometry info n q = background n q" by (rule geometry_out)
    with p(2) [of q] q Role_background [of n q] show False
      by (auto simp: px_defs)
  qed
  have 3: "\<forall>(x, y)\<in>set (alignCorners info n). box5 x y \<inter> finderZones n = {}"
    by (simp add: alignCorners_def)
  have 4: "v = 1 \<longrightarrow> alignCorners info n = []"
  proof
    assume "v = 1"
    then have "info = vtab ! nat 1" "n = 21" by (simp_all add: info_def n_def)
    with st stamped_v1 show "alignCorners info n = []" by metis
  qed
  from p(1) 1 2 3 4 show ?thesis
    unfolding n_def [symmetric] info_def [symmetric] by blast
qed

theorem alignment_boxes_witness:
  "\<exists>p. vplan 7 = Some (Inr p) \<and>
     alignCorners (vtab ! nat 7) 45 = [(4, 20), (20, 4), (20, 20), (20, 36), (36, 20), (36, 36)] \<and>
     cellAt p (22, 22) = PixelRole_Pixel Alignment OR Black \<and>
     cellAt p (21, 22) = PixelRole_Pixel Alignment"
proof -
  have eok: "entry_ok (vtab ! nat 7) 45" using vtab_ok [of 7] by simp
  have c: "alignCorners (vtab ! nat 7) 45 = [(4, 20), (20, 4), (20, 20), (20, 36), (36, 20), (36, 36)]"
    using stamped_alignCorners [OF _ eok] stamped_v7 by simp
  have n: "17 + 7 * 4 = (45::int)" by simp
  have h: "(1::int) \<le> 7" "(7::int) \<le> 40" by simp_all
  from alignment_boxes [OF h, unfolded n] obtain p where
    *: "vplan 7 = Some (Inr p)"
    "\<forall>(x, y)\<in>set (alignCorners (vtab ! nat 7) 45). \<forall>q\<in>box5 x y.
        inGrid 45 q \<and> cellAt p q = alignPattern x y q"
    by blast
  from *(2) have "\<forall>q\<in>box5 20 20. cellAt p q = alignPattern 20 20 q"
    unfolding c by simp
  then have "cellAt p (22, 22) = alignPattern 20 20 (22, 22)"
    "cellAt p (21, 22) = alignPattern 20 20 (21, 22)"
    by (simp_all add: box5_def)
  with *(1) c show ?thesis by (simp add: alignPattern_def)
qed

subsection \<open>Data and Check roles\<close>

lemma NewPlan_roles:
  assumes "1 \<le> v" "v \<le> 40" "0 \<le> k" "k \<le> 7"
  shows "\<exists>p. NewPlan v l k = Some (Inr p) \<and>
     (\<forall>q. inGrid (17 + v * 4) q \<longrightarrow>
        Role (cellAt p q) \<in> {0, Position, Alignment, Timing, Format} \<and>
        (q \<notin> patternCells (vtab ! nat v) (17 + v * 4) \<longrightarrow> cellAt p q = 0))"
proof -
  define n where "n = 17 + v * 4"
  define info where "info = vtab ! nat v"
  from NewPlan_cells [OF assms, of l] obtain p where p: "NewPlan v l k = Some (Inr p)"
    "\<And>q. inGrid n q \<Longrightarrow> cellAt p q = formatT (formatBits l k) n (geometry info n) q"
    unfolding n_def info_def by blast
  have 1: "Role (cellAt p q) \<in> {0, Position, Alignment, Timing, Format}" if "inGrid n q" for q
    using p(2) [OF that] Role_formatT [OF Role_geometry] by simp
  have 2: "cellAt p q = 0" if "inGrid n q" "q \<notin> patternCells info n" for q
  proof -
    from that(2) have f: "q \<notin> fmtCells n" and b: "\<And>x y. (x, y) \<in> set (stamped info n) \<Longrightarrow> q \<notin> box5 x y"
      and z: "q \<notin> posRegion n 0 (n - 7)" "q \<notin> posRegion n (n - 7) 0" "q \<notin> posRegion n 0 0"
        "q \<notin> timingSet n"
      by (auto simp: patternCells_def)
    have "cellAt p q = geometry info n q" using p(2) [OF that(1)] f by (simp add: formatT_out)
    also have "\<dots> = background n q" using b by (rule geometry_out)
    also have "\<dots> = 0" using z by (simp add: background_cases)
    finally show ?thesis .
  qed
  from p(1) 1 2 show ?thesis unfolding n_def [symmetric] info_def [symmetric] by blast
qed

text \<open>
  C1, as the builder behaves: for a valid version, any level and a mask id in 0..7, every cell
  of the returned grid has role none (0), Position, Alignment, Timing or Format; no cell has
  role Data or Check, and every cell outside the timing, finder, alignment and format
  patterns is 0 (no role, no flag, no offset).
\<close>

theorem no_payload_roles:
  assumes "1 \<le> v" "v \<le> 40" "0 \<le> k" "k \<le> 7"
  shows "\<exists>p. NewPlan v l k = Some (Inr p) \<and>
     (\<forall>q. inGrid (17 + v * 4) q \<longrightarrow>
        Role (cellAt p q) \<in> {0, Position, Alignment, Timing, Format} \<and>
        Role (cellAt p q) \<noteq> Data \<and> Role (cellAt p q) \<noteq> Check \<and>
        (q \<notin> patternCells (vtab ! nat v) (17 + v * 4) \<longrightarrow> cellAt p q = 0))"
proof -
  from NewPlan_roles [OF assms, of l] obtain p where p: "NewPlan v l k = Some (Inr p)"
    "\<forall>q. inGrid (17 + v * 4) q \<longrightarrow>
        Role (cellAt p q) \<in> {0, Position, Alignment, Timing, Format} \<and>
        (q \<notin> patternCells (vtab ! nat v) (17 + v * 4) \<longrightarrow> cellAt p q = 0)"
    by blast
  have "r \<noteq> Data \<and> r \<noteq> Check" if "r \<in> {0, Position, Alignment, Timing, Format}" for r
    using that by (auto simp: px_defs)
  with p show ?thesis by blast
qed

lemma outside_v1: "(9, 9) \<notin> patternCells (vtab ! nat 1) 21"
proof -
  have "(9, 9) \<notin> fmtCells 21" using fmtCells_shape [of 21 9 9] by auto
  then show ?thesis
    by (simp add: patternCells_def stamped_v1 [simplified] timingSet_def posRegion_def)
qed

lemma cell_9_9:
  "\<exists>p. NewPlan 1 L 0 = Some (Inr p) \<and> cellAt p (9, 9) = 0"
proof -
  have h: "(1::int) \<le> 1" "(1::int) \<le> 40" "(0::int) \<le> 0" "(0::int) \<le> 7" by simp_all
  have n: "17 + 1 * 4 = (21::int)" by simp
  from NewPlan_roles [OF h, of L, unfolded n] obtain p where p: "NewPlan 1 L 0 = Some (Inr p)"
    "\<forall>q. inGrid 21 q \<longrightarrow>
        Role (cellAt p q) \<in> {0, Position, Alignment, Timing, Format} \<and>
        (q \<notin> patternCells (vtab ! nat 1) 21 \<longrightarrow> cellAt p q = 0)"
    by blast
  have "inGrid 21 (9, 9)" by (simp add: inGrid_def)
  with p outside_v1 show ?thesis by blast
qed

theorem no_payload_roles_witness:
  "\<exists>p. NewPlan 1 L 0 = Some (Inr p) \<and> inGrid 21 (9, 9) \<and> cellAt p (9, 9) = 0 \<and>
       Role (cellAt p (9, 9)) \<noteq> Data \<and> Role (cellAt p (9, 9)) \<noteq> Check"
proof -
  have h: "(1::int) \<le> 1" "(1::int) \<le> 40" "(0::int) \<le> 0" "(0::int) \<le> 7" by simp_all
  have n: "17 + 1 * 4 = (21::int)" by simp
  from no_payload_roles [OF h, of L, unfolded n] obtain p where p: "NewPlan 1 L 0 = Some (Inr p)"
    "\<forall>q. inGrid 21 q \<longrightarrow>
        Role (cellAt p q) \<in> {0, Position, Alignment, Timing, Format} \<and>
        Role (cellAt p q) \<noteq> Data \<and> Role (cellAt p q) \<noteq> Check \<and>
        (q \<notin> patternCells (vtab ! nat 1) 21 \<longrightarrow> cellAt p q = 0)"
    by blast
  have "inGrid 21 (9, 9)" by (simp add: inGrid_def)
  with p outside_v1 show ?thesis by blast
qed

text \<open>
  The claim as the specification states it fails: at version 1, level \<open>L\<close>, mask 0 the cell in
  row 9, column 9 is written by no pattern, and its role is none, so neither Data nor Check.
\<close>

theorem payload_cells_unmarked:
  "map_option (map_sum id (\<lambda>p. cellAt p (9, 9))) (NewPlan 1 L 0) = Some (Inr 0) \<and>
   Role 0 \<notin> {Position, Alignment, Timing, Format, Data, Check}"
proof -
  from cell_9_9 obtain p where "NewPlan 1 L 0 = Some (Inr p)" "cellAt p (9, 9) = 0" by blast
  then show ?thesis by (simp add: px_defs)
qed

subsection \<open>Mask 0 with the level of encoding 00\<close>

lemma readFormat_cong:
  assumes "\<And>i. 0 \<le> i \<Longrightarrow> i \<le> 14 \<Longrightarrow> cell i = cell' i"
  shows "readFormat h cell = readFormat h cell'"
  unfolding readFormat_def
  by (rule fold_cong) (use assms in auto)

lemma NewPlan_format_cells:
  assumes "1 \<le> v" "v \<le> 40" "0 \<le> k" "k \<le> 7"
  shows "\<exists>p. NewPlan v l k = Some (Inr p) \<and>
           (\<forall>h. readFormat h (\<lambda>i. cellAt p (fmtA i)) = readFormat h (formatPixel (formatBits l k)))"
proof -
  define n where "n = 17 + v * 4"
  have n: "21 \<le> n" using assms by (simp add: n_def)
  from NewPlan_cells [OF assms, of l] obtain p where p: "NewPlan v l k = Some (Inr p)"
    "\<And>q. inGrid n q \<Longrightarrow>
       cellAt p q = formatT (formatBits l k) n (geometry (vtab ! nat v) n) q"
    unfolding n_def by blast
  have "cellAt p (fmtA i) = formatPixel (formatBits l k) i" if "0 \<le> i" "i \<le> 14" for i
    using p(2) [of "fmtA i"] in_fmtCells [OF that, of n] fmtCells_inGrid [OF n, of "fmtA i"]
      formatT_in [OF n that] by simp
  then have "readFormat h (\<lambda>i. cellAt p (fmtA i)) = readFormat h (formatPixel (formatBits l k))" for h
    by (rule readFormat_cong)
  with p(1) show ?thesis by blast
qed

lemma read_codeword_0:
  "readFormat (\<lambda>px. px AND Black) (formatPixel 0) = 0x5412"
  "readFormat (\<lambda>px. drop_bit 1 px AND 1) (formatPixel 0) = 0x5412"
  "readFormat rendered (formatPixel 0) = 0"
  by (simp_all add: readFormat_def upt15 formatPixel_def Let_def px_defs OffsetPixel_def rendered_def)

lemma read_codeword_L:
  "readFormat rendered (formatPixel 9174) = 9174"
  by (simp_all add: readFormat_def upt15 formatPixel_def Let_def px_defs OffsetPixel_def rendered_def)

lemma formatBits_1_0: "formatBits 1 0 = 0"
  by (rule formatBits_table)

lemma formatBits_M_0: "formatBits M 0 = 9174"
  unfolding M_def by (rule formatBits_table)

text \<open>
  C5, as the builder behaves: for the level value 1 and mask 0, with any valid version, the
  information bits, the remainder and the codeword are all 0; the Black flags of the format
  cells read in offset order spell 0x5412 and so do their Invert flags, hence the colour
  black XOR invert is 0 on each of them.
\<close>

theorem format_level1_mask0:
  assumes "1 \<le> v" "v \<le> 40"
  shows "push_bit 13 (word_of_int (1 XOR 1)) OR push_bit 10 (word_of_int 0) = (0 :: 32 word) \<and>
         bchrem 0 = 0 \<and> formatBits 1 0 = 0 \<and>
         (\<exists>p. NewPlan v 1 0 = Some (Inr p) \<and> blackFormat p = 0x5412 \<and>
              invertFormat p = 0x5412 \<and> drawnFormat p = 0)"
proof -
  from NewPlan_format_cells [OF assms, of 0 1] obtain p where
    p: "NewPlan v 1 0 = Some (Inr p)"
    "\<And>h. readFormat h (\<lambda>i. cellAt p (fmtA i)) = readFormat h (formatPixel (formatBits 1 0))"
    by auto
  have "blackFormat p = 0x5412" "invertFormat p = 0x5412" "drawnFormat p = 0"
    by (simp_all only: blackFormat_def invertFormat_def drawnFormat_def p(2) formatBits_1_0
          read_codeword_0)
  with p(1) show ?thesis by (simp add: formatBits_1_0 bchrem_0)
qed

theorem format_level1_mask0_witness:
  "\<exists>p. NewPlan 3 1 0 = Some (Inr p) \<and> blackFormat p = 0x5412 \<and> drawnFormat p = 0"
  using format_level1_mask0 [of 3] by auto

text \<open>
  The claim as the specification states it fails twice.  The constant \<open>M\<close> is 0, and for level
  \<open>M\<close> with mask 0 the codeword is 0x23D6, not 0.  For the level value 1 the codeword is 0,
  and the colour black XOR invert of the format cells spells 0, not 0x5412: with level \<open>M\<close>
  it spells the codeword 0x23D6.
\<close>

theorem format_M_mask0:
  "formatBits M 0 = 0x23D6 \<and>
   map_option (map_sum id drawnFormat) (NewPlan 1 M 0) = Some (Inr 0x23D6) \<and>
   formatBits 1 0 = 0 \<and>
   map_option (map_sum id drawnFormat) (NewPlan 1 1 0) = Some (Inr 0)"
proof -
  from NewPlan_format_cells [of 1 0 M] obtain p where
    p: "NewPlan 1 M 0 = Some (Inr p)"
    "\<And>h. readFormat h (\<lambda>i. cellAt p (fmtA i)) = readFormat h (formatPixel (formatBits M 0))"
    by auto
  have 1: "drawnFormat p = 9174"
    by (simp only: drawnFormat_def p(2) formatBits_M_0 read_codeword_L)
  from NewPlan_format_cells [of 1 0 1] obtain p' where
    p': "NewPlan 1 1 0 = Some (Inr p')"
    "\<And>h. readFormat h (\<lambda>i. cellAt p' (fmtA i)) = readFormat h (formatPixel (formatBits 1 0))"
    by auto
  have 2: "drawnFormat p' = 0"
    by (simp only: drawnFormat_def p'(2) formatBits_1_0 read_codeword_0)
  from p(1) p'(1) 1 2 show ?thesis by (simp add: formatBits_M_0 formatBits_1_0)
qed

subsection \<open>The mask stage\<close>

lemma smod_nonneg: "0 \<le> a \<Longrightarrow> 0 < b \<Longrightarrow> a smod b = a mod (b::int)"
  by (simp add: signed_modulo_int_def sgn_if)

lemma sdiv_nonneg: "0 \<le> a \<Longrightarrow> 0 < b \<Longrightarrow> a sdiv b = a div (b::int)"
  by (simp add: signed_divide_int_def sgn_if)

lemma mfunc_formula:
  assumes "0 \<le> m" "m \<le> 7" "0 \<le> i" "0 \<le> j"
  shows "(mfunc ! nat m) i j = maskFormula m i j"
proof -
  have ij: "0 \<le> i * j" "0 \<le> i + j" using assms by simp_all
  have nn: "0 \<le> i div 2 + j div 3" "0 \<le> i * j mod 2 + i * j mod 3" "0 \<le> i * j mod 3 + (i + j) mod 2"
    using assms by simp_all
  from assms(1,2) have "m \<in> {0, 1, 2, 3, 4, 5, 6, 7}" by auto
  then show ?thesis
    using assms(3,4) ij nn
    by (elim insertE emptyE; simp add: mfunc_def maskFormula_def smod_nonneg sdiv_nonneg)
qed

lemma or_Invert:
  "(w OR Invert) AND Black = w AND Black" "Role (w OR Invert) = Role w"
  "Offset (w OR Invert) = Offset w" "(w OR Invert) AND Invert \<noteq> 0"
proof -
  show "(w OR Invert) AND Black = w AND Black"
    unfolding Invert_def Black_def by (rule bit_word_eqI) (auto simp: bit_simps)
  show "Role (w OR Invert) = Role w"
    unfolding Invert_def Role_def by (rule bit_word_eqI) (auto simp: bit_simps)
  have "drop_bit 5 (w OR Invert) = drop_bit 5 w"
    unfolding Invert_def by (rule bit_word_eqI) (auto simp: bit_simps)
  then show "Offset (w OR Invert) = Offset w" by (simp add: Offset_def)
  have b: "bit ((w OR Invert) AND Invert) 1"
    unfolding Invert_def by (auto simp: bit_simps)
  show "(w OR Invert) AND Invert \<noteq> 0"
  proof
    assume "(w OR Invert) AND Invert = 0"
    then have "bit ((w OR Invert) AND Invert) 1 = bit (0 :: 32 word) 1" by simp
    with b show False by simp
  qed
qed

text \<open>
  C7, as \<open>mplan\<close> behaves: for every plan and every mask id \<open>m\<close> in 0..7 \<open>mplan\<close> succeeds and
  keeps the shape of the grid; every cell keeps its Black flag, role and offset; a cell that
  is not Data or Check is unchanged; and a Data or Check cell has its Invert flag set
  afterwards iff the flag was set before or the \<open>m\<close>-th formula holds with \<open>i\<close> the column
  index of the cell (its index within the row) and \<open>j\<close> its row index.
\<close>

theorem mplan_sets_invert:
  assumes "0 \<le> m" "m \<le> 7"
  shows "\<exists>p'. mplan m p = Inr p' \<and> length (Pixel p') = length (Pixel p) \<and>
     (\<forall>y < length (Pixel p). length (Pixel p' ! y) = length (Pixel p ! y) \<and>
        (\<forall>x < length (Pixel p ! y).
           (Pixel p' ! y ! x) AND Black = (Pixel p ! y ! x) AND Black \<and>
           Role (Pixel p' ! y ! x) = Role (Pixel p ! y ! x) \<and>
           Offset (Pixel p' ! y ! x) = Offset (Pixel p ! y ! x) \<and>
           (Role (Pixel p ! y ! x) = Data \<or> Role (Pixel p ! y ! x) = Check \<longrightarrow>
              ((Pixel p' ! y ! x) AND Invert \<noteq> 0) =
              ((Pixel p ! y ! x) AND Invert \<noteq> 0 \<or> maskFormula m (int x) (int y))) \<and>
           (Role (Pixel p ! y ! x) \<noteq> Data \<and> Role (Pixel p ! y ! x) \<noteq> Check \<longrightarrow>
              Pixel p' ! y ! x = Pixel p ! y ! x)))"
proof -
  let ?f = "mfunc ! nat m"
  define g where "g = map (\<lambda>(y, row).
               map (\<lambda>(x, pix).
                 if (Role pix = Data \<or> Role pix = Check) \<and> ?f (int x) (int y)
                 then pix OR Invert else pix) (enumerate 0 row))
               (enumerate 0 (Pixel p))"
  have r: "mplan m p = Inr (p\<lparr>Mask := m, Pixel := g\<rparr>)"
    using assms by (simp add: mplan_def mfunc_def Let_def g_def)
  have cell: "g ! y ! x =
      (if (Role (Pixel p ! y ! x) = Data \<or> Role (Pixel p ! y ! x) = Check) \<and> maskFormula m (int x) (int y)
       then (Pixel p ! y ! x) OR Invert else Pixel p ! y ! x)"
    if "y < length (Pixel p)" "x < length (Pixel p ! y)" for x y
    using that mfunc_formula [OF assms, of "int x" "int y"] by (simp add: g_def nth_enumerate_eq)
  have len: "length (g ! y) = length (Pixel p ! y)" if "y < length (Pixel p)" for y
    using that by (simp add: g_def nth_enumerate_eq)
  have len0: "length g = length (Pixel p)" by (simp add: g_def)
  have nz: "Invert \<noteq> 0" by (simp add: Invert_def)
  show ?thesis
    by (rule exI [of _ "p\<lparr>Mask := m, Pixel := g\<rparr>"])
       (simp add: r len len0 cell or_Invert nz)
qed

theorem mplan_sets_invert_witness:
  "mplan 1 \<lparr>Version = 1, Level = 0, Mask = 0, DataBytes = 0, CheckBytes = 0, Blocks = 0,
            Pixel = [[20, 20]]\<rparr> =
   Inr \<lparr>Version = 1, Level = 0, Mask = 1, DataBytes = 0, CheckBytes = 0, Blocks = 0,
        Pixel = [[22, 20]]\<rparr> \<and>
   Role 20 = Data \<and> (22 :: Pixel) AND Invert \<noteq> 0 \<and> maskFormula 1 0 0 \<and>
   (20 :: Pixel) AND Invert = 0 \<and> \<not> maskFormula 1 1 0"
  using mplan_sets_invert [of 1 "\<lparr>Version = 1, Level = 0, Mask = 0, DataBytes = 0, CheckBytes = 0,
     Blocks = 0, Pixel = [[20, 20]]\<rparr>"]
  by (simp add: mplan_def mfunc_def Let_def px_defs maskFormula_def signed_modulo_int_def)

text \<open>
  The claim as the specification states it fails.  On the one-row grid of two Data cells,
  mask 1 leaves the cell in row 0, column 1 without the Invert flag although the formula
  \<open>i mod 2 = 0\<close> holds for \<open>i\<close> the row index 0.  On the grid whose second cell had the Invert
  flag before the call, mask 0 leaves that flag set although \<open>(i + j) mod 2 = 0\<close> is false
  for row 0 and column 1 in either order.
\<close>

theorem mplan_row_column:
  "mplan 1 \<lparr>Version = 1, Level = 0, Mask = 0, DataBytes = 0, CheckBytes = 0, Blocks = 0,
            Pixel = [[20, 20]]\<rparr> =
   Inr \<lparr>Version = 1, Level = 0, Mask = 1, DataBytes = 0, CheckBytes = 0, Blocks = 0,
        Pixel = [[22, 20]]\<rparr> \<and>
   Role 20 = Data \<and> maskFormula 1 0 1 \<and> (20 :: Pixel) AND Invert = 0 \<and>
   mplan 0 \<lparr>Version = 1, Level = 0, Mask = 0, DataBytes = 0, CheckBytes = 0, Blocks = 0,
            Pixel = [[20, 22]]\<rparr> =
   Inr \<lparr>Version = 1, Level = 0, Mask = 0, DataBytes = 0, CheckBytes = 0, Blocks = 0,
        Pixel = [[22, 22]]\<rparr> \<and>
   Role 22 = Data \<and> \<not> maskFormula 0 0 1 \<and> \<not> maskFormula 0 1 0 \<and> (22 :: Pixel) AND Invert \<noteq> 0"
  by (simp add: mplan_def mfunc_def Let_def px_defs maskFormula_def signed_modulo_int_def)

end
